theory Spec2Isabelle
  imports Complex_Main "HOL-Library.Sublist" "HOL-Library.Multiset"
begin

section \<open>Data model (types.ts)\<close>

text \<open>
  Strings are byte strings. The two regular expressions of the program and the
  \<^verbatim>\<open>includes\<close> tests only look at ASCII characters, so a non-ASCII character
  (several bytes, all above 127) is, like a UTF-16 unit above 127, neither a
  letter, a digit, an underscore, a dollar sign nor a dot.
\<close>

datatype postType = Image | Gif | Video | Gallery | Link

text \<open>
  The raw post (\<^verbatim>\<open>post: any\<close>, a snoowrap \<^verbatim>\<open>Submission\<close>). A field the code
  reads through \<^verbatim>\<open>?.\<close> or \<^verbatim>\<open>||\<close>, or compares with a constant, is optional:
  \<open>None\<close> is \<^verbatim>\<open>undefined\<close>. \<open>author\<close> is the \<^verbatim>\<open>name\<close> of the author object,
  \<open>None\<close> when the post has no author object. \<open>media\<close> is
  \<^verbatim>\<open>post.media?.reddit_video?.fallback_url\<close>, \<open>preview\<close> is
  \<^verbatim>\<open>post.preview?.images?.[0]?.source?.url\<close>, and \<open>media_metadata\<close> lists the
  entries of the mapping in the order of \<^verbatim>\<open>Object.keys\<close>, each with its \<^verbatim>\<open>s?.u\<close>.
  The truthiness of a flag is its boolean.
\<close>

record submission =
  post_id :: string
  title :: string
  selftext :: "string option"
  url :: "string option"
  permalink :: string
  author :: "string option"
  created_utc :: int
  score :: int
  upvote_ratio :: real
  num_comments :: int
  total_awards_received :: "int option"
  over_18 :: bool
  is_gallery :: bool
  is_video :: bool
  post_hint :: "string option"
  media :: "string option"
  preview :: "string option"
  media_metadata :: "(string \<times> string option) list option"

record engagement =
  upvotes :: int
  upvoteRatio :: real
  comments :: int
  awards :: int

record memePost =
  meme_id :: string
  meme_title :: string
  meme_url :: string
  mediaUrl :: "string option"
  meme_author :: string
  subreddit :: string
  createdAt :: int
  engagement :: engagement
  tickers :: "string list"
  postType :: postType
  isNSFW :: bool

datatype timeframe = Hour | Day | Week | Month

record scraperConfig =
  subreddits :: "string list"
  minUpvotes :: int
  minComments :: int
  timeframe :: timeframe
  limit :: nat
  includeNSFW :: bool

section \<open>Characters and regular expressions\<close>

definition isUpper :: "char \<Rightarrow> bool" where
  "isUpper c = (65 \<le> (of_char c :: nat) \<and> (of_char c :: nat) \<le> 90)"

definition isLower :: "char \<Rightarrow> bool" where
  "isLower c = (97 \<le> (of_char c :: nat) \<and> (of_char c :: nat) \<le> 122)"

definition isDigit :: "char \<Rightarrow> bool" where
  "isDigit c = (48 \<le> (of_char c :: nat) \<and> (of_char c :: nat) \<le> 57)"

text \<open>The class \<^verbatim>\<open>\w\<close>, which decides \<^verbatim>\<open>\b\<close>.\<close>

definition isWordChar :: "char \<Rightarrow> bool" where
  "isWordChar c = (isUpper c \<or> isLower c \<or> isDigit c \<or> c = CHR ''_'')"

text \<open>
  \<^verbatim>\<open>toLowerCase\<close> on the ASCII letters. JavaScript also lower-cases letters outside
  ASCII; of these only the Kelvin sign (to k) and the dotted capital I (to i and a
  combining dot) give an ASCII letter, and no pattern of the classifier has a k, or
  an i that is not followed by a further character of the pattern.
\<close>

definition toLowerChar :: "char \<Rightarrow> char" where
  "toLowerChar c = (if isUpper c then char_of ((of_char c :: nat) + 32) else c)"

definition toLowerCase :: "string \<Rightarrow> string" where
  "toLowerCase s = map toLowerChar s"

definition toUpperChar :: "char \<Rightarrow> char" where
  "toUpperChar c = (if isLower c then char_of ((of_char c :: nat) - 32) else c)"

definition toUpperCase :: "string \<Rightarrow> string" where
  "toUpperCase s = map toUpperChar s"

text \<open>
  The fragment of JavaScript's regular expressions the program uses: literal
  text, a character class repeated greedily between \<open>m\<close> and \<open>n\<close> times,
  alternation, sequence, the end anchor \<^verbatim>\<open>$\<close> (no \<^verbatim>\<open>m\<close> flag) and \<^verbatim>\<open>\b\<close>.
\<close>

datatype rx =
    Lit string
  | Rep nat nat "char \<Rightarrow> bool"
  | Alt rx rx
  | Seq rx rx
  | Eol
  | WordB

definition wordBefore :: "string \<Rightarrow> nat \<Rightarrow> bool" where
  "wordBefore s i = (0 < i \<and> i \<le> length s \<and> isWordChar (s ! (i - 1)))"

definition wordAt :: "string \<Rightarrow> nat \<Rightarrow> bool" where
  "wordAt s i = (i < length s \<and> isWordChar (s ! i))"

text \<open>
  The backtracking matcher: \<open>rx_ends r s i\<close> lists, in the order the engine
  tries them, the positions at which a match of \<open>r\<close> that starts at \<open>i\<close> can end.
  The engine takes the first.
\<close>

fun rx_ends :: "rx \<Rightarrow> string \<Rightarrow> nat \<Rightarrow> nat list" where
  "rx_ends (Lit t) s i = (if take (length t) (drop i s) = t then [i + length t] else [])"
| "rx_ends (Rep m n c) s i =
     (let k = length (takeWhile c (take n (drop i s))) in map (\<lambda>j. i + j) (rev [m..<Suc k]))"
| "rx_ends (Alt a b) s i = rx_ends a s i @ rx_ends b s i"
| "rx_ends (Seq a b) s i = concat (map (rx_ends b s) (rx_ends a s i))"
| "rx_ends Eol s i = (if i = length s then [i] else [])"
| "rx_ends WordB s i = (if wordBefore s i \<noteq> wordAt s i then [i] else [])"

text \<open>
  \<^verbatim>\<open>RegExp.prototype.exec\<close> from index \<open>i\<close>: the leftmost start at which the
  expression matches, with the end of the first match found there.
\<close>

definition rx_exec :: "rx \<Rightarrow> string \<Rightarrow> nat \<Rightarrow> (nat \<times> nat) option" where
  "rx_exec r s i =
     (case find (\<lambda>k. rx_ends r s k \<noteq> []) [i..<Suc (length s)] of
        None \<Rightarrow> None
      | Some k \<Rightarrow> Some (k, hd (rx_ends r s k)))"

text \<open>\<^verbatim>\<open>s.match(r)\<close> used as a condition: is there a match.\<close>

definition rx_test :: "rx \<Rightarrow> string \<Rightarrow> bool" where
  "rx_test r s = (rx_exec r s 0 \<noteq> None)"

text \<open>\<^verbatim>\<open>s.includes(t)\<close>.\<close>

definition str_includes :: "string \<Rightarrow> string \<Rightarrow> bool" where
  "str_includes s t = list_ex (\<lambda>k. take (length t) (drop k s) = t) [0..<Suc (length s)]"

section \<open>Post classifier (determinePostType, isMemePost)\<close>

text \<open>\<^verbatim>\<open>/\.(gif|gifv)$/\<close>, \<^verbatim>\<open>/\.(jpg|jpeg|png|webp)$/\<close>, \<^verbatim>\<open>/\.(mp4|webm|mov)$/\<close>\<close>

definition rx_gif :: rx where
  "rx_gif = Seq (Lit ''.'') (Seq (Alt (Lit ''gif'') (Lit ''gifv'')) Eol)"

definition rx_image :: rx where
  "rx_image = Seq (Lit ''.'')
     (Seq (Alt (Lit ''jpg'') (Alt (Lit ''jpeg'') (Alt (Lit ''png'') (Lit ''webp'')))) Eol)"

definition rx_video :: rx where
  "rx_video = Seq (Lit ''.'') (Seq (Alt (Lit ''mp4'') (Alt (Lit ''webm'') (Lit ''mov''))) Eol)"

definition determinePostType :: "submission \<Rightarrow> postType" where
  "determinePostType post =
     (if is_gallery post then Gallery
      else if post_hint post = Some ''image'' then Image
      else if post_hint post = Some ''hosted:video'' \<or> post_hint post = Some ''rich:video''
        then Video
      else
        let u = (case url post of None \<Rightarrow> [] | Some v \<Rightarrow> toLowerCase v) in
        if rx_test rx_gif u then Gif
        else if rx_test rx_image u then Image
        else if rx_test rx_video u then Video
        else if str_includes u ''i.redd.it'' \<or> str_includes u ''i.imgur.com'' then Image
        else if str_includes u ''v.redd.it'' then Video
        else Link)"

definition isMemePost :: "submission \<Rightarrow> bool" where
  "isMemePost post = (determinePostType post \<in> set [Image, Gif, Video, Gallery])"

section \<open>Token extractor (extractTickers)\<close>

text \<open>
  \<^verbatim>\<open>text.matchAll(r)\<close> for a global expression: \<^verbatim>\<open>exec\<close> is repeated from
  \<^verbatim>\<open>lastIndex\<close>, which a match moves to its end (one further after an empty match).
  Each match is its start and its end.
\<close>

function rx_matchAll :: "rx \<Rightarrow> string \<Rightarrow> nat \<Rightarrow> (nat \<times> nat) list" where
  "rx_matchAll r s i =
     (case rx_exec r s i of
        None \<Rightarrow> []
      | Some (k, e) \<Rightarrow> (k, e) # rx_matchAll r s (if k < e then e else Suc k))"
  by pat_completeness auto
termination
proof (relation "measure (\<lambda>(r, s, i). Suc (length s) - i)")
  show "wf (measure (\<lambda>(r, s, i). Suc (length s) - i))" by simp
next
  fix r :: rx and s :: string and i :: nat and x2 :: "nat \<times> nat" and k e :: nat
  assume ex: "rx_exec r s i = Some x2" and x2: "(k, e) = x2"
  from ex x2 have "find (\<lambda>k. rx_ends r s k \<noteq> []) [i..<Suc (length s)] = Some k"
    by (auto simp: rx_exec_def simp del: upt_Suc split: option.splits)
  then have "k \<in> set [i..<Suc (length s)]"
    by (metis find_Some_iff nth_mem)
  then have "i \<le> k \<and> k \<le> length s"
    by (simp del: upt_Suc)
  then show "((r, s, if k < e then e else Suc k), (r, s, i)) \<in> measure (\<lambda>(r, s, i). Suc (length s) - i)"
    by auto
qed

text \<open>\<^verbatim>\<open>/\$([A-Z]{1,5})\b/g\<close>\<close>

definition tickerRegex :: rx where
  "tickerRegex = Seq (Lit ''$'') (Seq (Rep 1 5 isUpper) WordB)"

text \<open>A \<^verbatim>\<open>Set\<close> is the list of its elements in insertion order.\<close>

definition set_add :: "'a list \<Rightarrow> 'a \<Rightarrow> 'a list" where
  "set_add xs x = (if x \<in> set xs then xs else xs @ [x])"

text \<open>
  \<^verbatim>\<open>match[1]\<close>, the group of the letters: the text from behind the dollar sign to
  the end of the match, since \<^verbatim>\<open>\b\<close> consumes nothing.
\<close>

definition group1 :: "string \<Rightarrow> nat \<times> nat \<Rightarrow> string" where
  "group1 s m = take (snd m - Suc (fst m)) (drop (Suc (fst m)) s)"

definition extractTickers :: "string \<Rightarrow> string list" where
  "extractTickers text = foldl set_add [] (map (group1 text) (rx_matchAll tickerRegex text 0))"

section \<open>Media URL (getMediaUrl)\<close>

text \<open>\<^verbatim>\<open>s.replace(/&amp;/g, '&')\<close>\<close>

function unescapeAmp :: "string \<Rightarrow> string" where
  "unescapeAmp [] = []"
| "unescapeAmp (c # cs) =
     (if take 5 (c # cs) = ''&amp;'' then CHR ''&'' # unescapeAmp (drop 4 cs)
      else c # unescapeAmp cs)"
  by pat_completeness auto
termination
  by (relation "measure length") auto

definition truthy :: "string option \<Rightarrow> bool" where
  "truthy v = (case v of None \<Rightarrow> False | Some s \<Rightarrow> s \<noteq> [])"

definition getMediaUrl :: "submission \<Rightarrow> string option" where
  "getMediaUrl post =
     (if truthy (url post) \<and> (post_hint post = Some ''image'' \<or> is_video post) then url post
      else if truthy (media post) then media post
      else if truthy (preview post) then map_option unescapeAmp (preview post)
      else if is_gallery post \<and> media_metadata post \<noteq> None then
        (case media_metadata post of
           Some ((firstMediaId, u) # rest) \<Rightarrow>
             (if truthy u then map_option unescapeAmp u else None)
         | _ \<Rightarrow> None)
      else None)"

section \<open>The scraper (RedditMemeScraper)\<close>

datatype error = FetchError string | TypeError

datatype logEvent =
    LogScraping string
  | LogFound nat string
  | LogError string error

text \<open>
  The constructor's configuration: a \<^verbatim>\<open>Partial<ScraperConfig>\<close>, a field \<open>None\<close>
  when it is not given. \<^verbatim>\<open>||\<close> replaces a falsy value (an array, also an empty
  one, is truthy; the number 0 is falsy), \<^verbatim>\<open>??\<close> only a missing one.
\<close>

record partialConfig =
  p_subreddits :: "string list option"
  p_minUpvotes :: "int option"
  p_minComments :: "int option"
  p_timeframe :: "timeframe option"
  p_limit :: "nat option"
  p_includeNSFW :: "bool option"

definition scraper_constructor :: "partialConfig \<Rightarrow> scraperConfig" where
  "scraper_constructor config =
     \<lparr> subreddits = (case p_subreddits config of None \<Rightarrow> [''wallstreetbets''] | Some l \<Rightarrow> l),
       minUpvotes = (case p_minUpvotes config of None \<Rightarrow> 100 | Some n \<Rightarrow> n),
       minComments = (case p_minComments config of None \<Rightarrow> 0 | Some n \<Rightarrow> n),
       timeframe = (case p_timeframe config of None \<Rightarrow> Day | Some t \<Rightarrow> t),
       limit = (case p_limit config of None \<Rightarrow> 50 | Some n \<Rightarrow> if n = 0 then 50 else n),
       includeNSFW = (case p_includeNSFW config of None \<Rightarrow> True | Some b \<Rightarrow> b) \<rparr>"

definition shouldIncludePost :: "scraperConfig \<Rightarrow> submission \<Rightarrow> bool" where
  "shouldIncludePost config post =
     (if \<not> isMemePost post then False
      else if over_18 post \<and> \<not> includeNSFW config then False
      else if score post < minUpvotes config then False
      else if num_comments post < minComments config then False
      else True)"

text \<open>
  \<^verbatim>\<open>post.author.name\<close> raises a TypeError when the post has no author object;
  nothing else in the conversion can raise.
\<close>

definition convertToMemePost :: "submission \<Rightarrow> string \<Rightarrow> error + memePost" where
  "convertToMemePost post subredditName =
     (let fullText = title post @ '' '' @ (case selftext post of None \<Rightarrow> [] | Some t \<Rightarrow> t);
          tickers = extractTickers fullText
      in case author post of
           None \<Rightarrow> Inl TypeError
         | Some authorName \<Rightarrow>
             Inr \<lparr> meme_id = post_id post,
                   meme_title = title post,
                   meme_url = ''https://reddit.com'' @ permalink post,
                   mediaUrl = getMediaUrl post,
                   meme_author = authorName,
                   subreddit = subredditName,
                   createdAt = created_utc post * 1000,
                   engagement = \<lparr> upvotes = score post,
                                   upvoteRatio = upvote_ratio post,
                                   comments = num_comments post,
                                   awards = (case total_awards_received post of
                                               None \<Rightarrow> 0 | Some n \<Rightarrow> n) \<rparr>,
                   tickers = tickers,
                   postType = determinePostType post,
                   isNSFW = over_18 post \<rparr>)"

text \<open>
  The fetch collaborator (\<^verbatim>\<open>subreddit.getHot({limit})\<close>): from the state of the
  outside world, a subreddit name and the limit it gives the posts or fails, and
  the world moves on.
\<close>

type_synonym 'w getHot = "'w \<Rightarrow> string \<Rightarrow> nat \<Rightarrow> (error + submission list) \<times> 'w"

text \<open>The loop over the posts of one subreddit; an exception leaves it.\<close>

fun collectMemes ::
  "scraperConfig \<Rightarrow> string \<Rightarrow> submission list \<Rightarrow> memePost list \<Rightarrow> error + memePost list" where
  "collectMemes config subredditName [] memes = Inr memes"
| "collectMemes config subredditName (post # posts) memes =
     (if shouldIncludePost config post then
        (case convertToMemePost post subredditName of
           Inl e \<Rightarrow> Inl e
         | Inr meme \<Rightarrow> collectMemes config subredditName posts (memes @ [meme]))
      else collectMemes config subredditName posts memes)"

definition fetchFromSubreddit ::
  "'w getHot \<Rightarrow> scraperConfig \<Rightarrow> string \<Rightarrow> 'w \<Rightarrow> (error + memePost list) \<times> 'w" where
  "fetchFromSubreddit getHot config subredditName w =
     (case getHot w subredditName (limit config) of
        (Inl e, w') \<Rightarrow> (Inl e, w')
      | (Inr posts, w') \<Rightarrow> (collectMemes config subredditName posts [], w'))"

text \<open>
  \<^verbatim>\<open>Array.prototype.sort\<close> with a comparator is stable, so with a consistent
  comparator its result is the one of the stable insertion sort.
\<close>

fun insertBy :: "('a \<Rightarrow> 'a \<Rightarrow> int) \<Rightarrow> 'a \<Rightarrow> 'a list \<Rightarrow> 'a list" where
  "insertBy cmp x [] = [x]"
| "insertBy cmp x (y # ys) = (if cmp x y \<le> 0 then x # y # ys else y # insertBy cmp x ys)"

definition sortBy :: "('a \<Rightarrow> 'a \<Rightarrow> int) \<Rightarrow> 'a list \<Rightarrow> 'a list" where
  "sortBy cmp xs = foldr (insertBy cmp) xs []"

text \<open>
  The loop of \<^verbatim>\<open>fetchMemes\<close> over the subreddits, on the accumulated memes, the
  console and the world: the \<^verbatim>\<open>catch\<close> logs the error and the loop goes on.
\<close>

fun fetchLoop ::
  "'w getHot \<Rightarrow> scraperConfig \<Rightarrow> string list \<Rightarrow> memePost list \<times> logEvent list \<times> 'w
     \<Rightarrow> memePost list \<times> logEvent list \<times> 'w" where
  "fetchLoop getHot config [] st = st"
| "fetchLoop getHot config (sub # subs) (allMemes, console, w) =
     (case fetchFromSubreddit getHot config sub w of
        (Inr memes, w') \<Rightarrow>
          fetchLoop getHot config subs
            (allMemes @ memes, console @ [LogScraping sub, LogFound (length memes) sub], w')
      | (Inl e, w') \<Rightarrow>
          fetchLoop getHot config subs (allMemes, console @ [LogScraping sub, LogError sub e], w'))"

text \<open>The result of the promise (\<open>Inl\<close>: rejected), the console and the world.\<close>

definition fetchMemes ::
  "'w getHot \<Rightarrow> scraperConfig \<Rightarrow> 'w \<Rightarrow> (error + memePost list) \<times> logEvent list \<times> 'w" where
  "fetchMemes getHot config w =
     (case fetchLoop getHot config (subreddits config) ([], [], w) of
        (allMemes, console, w') \<Rightarrow>
          (Inr (sortBy (\<lambda>a b. upvotes (engagement b) - upvotes (engagement a)) allMemes),
           console, w'))"

definition getMemesByTicker ::
  "'w getHot \<Rightarrow> scraperConfig \<Rightarrow> string \<Rightarrow> 'w \<Rightarrow> (error + memePost list) \<times> logEvent list \<times> 'w" where
  "getMemesByTicker getHot config ticker w =
     (case fetchMemes getHot config w of
        (Inl e, console, w') \<Rightarrow> (Inl e, console, w')
      | (Inr allMemes, console, w') \<Rightarrow>
          (Inr (filter (\<lambda>meme. toUpperCase ticker \<in> set (tickers meme)) allMemes), console, w'))"

text \<open>A \<^verbatim>\<open>Map\<close> is the list of its entries in insertion order.\<close>

fun map_set :: "('k \<times> 'v) list \<Rightarrow> 'k \<Rightarrow> 'v \<Rightarrow> ('k \<times> 'v) list" where
  "map_set [] k v = [(k, v)]"
| "map_set ((k', v') # m) k v = (if k' = k then (k', v) # m else (k', v') # map_set m k v)"

definition countTicker :: "(string \<times> nat) list \<Rightarrow> string \<Rightarrow> (string \<times> nat) list" where
  "countTicker tickerCounts ticker =
     map_set tickerCounts ticker ((case map_of tickerCounts ticker of None \<Rightarrow> 0 | Some n \<Rightarrow> n) + 1)"

definition new_Map :: "('k \<times> 'v) list \<Rightarrow> ('k \<times> 'v) list" where
  "new_Map entries = foldl (\<lambda>m (k, v). map_set m k v) [] entries"

text \<open>The part of \<^verbatim>\<open>getTrendingTickers\<close> behind the fetch.\<close>

definition trendingTickers :: "memePost list \<Rightarrow> (string \<times> nat) list" where
  "trendingTickers allMemes =
     (let tickerCounts = foldl (\<lambda>m meme. foldl countTicker m (tickers meme)) [] allMemes
      in new_Map (sortBy (\<lambda>a b. int (snd b) - int (snd a)) tickerCounts))"

definition getTrendingTickers ::
  "'w getHot \<Rightarrow> scraperConfig \<Rightarrow> 'w \<Rightarrow> (error + (string \<times> nat) list) \<times> logEvent list \<times> 'w" where
  "getTrendingTickers getHot config w =
     (case fetchMemes getHot config w of
        (Inl e, console, w') \<Rightarrow> (Inl e, console, w')
      | (Inr allMemes, console, w') \<Rightarrow> (Inr (trendingTickers allMemes), console, w'))"

section \<open>Notions used to state the properties\<close>

text \<open>
  What each configured subreddit gave, in the order of the loop: its name with the
  memes of \<^verbatim>\<open>fetchFromSubreddit\<close> or the error it raised. The world is threaded
  through the fetches as the loop does.
\<close>

fun outcomes ::
  "'w getHot \<Rightarrow> scraperConfig \<Rightarrow> string list \<Rightarrow> 'w \<Rightarrow> (string \<times> (error + memePost list)) list" where
  "outcomes getHot config [] w = []"
| "outcomes getHot config (sub # subs) w =
     (sub, fst (fetchFromSubreddit getHot config sub w))
       # outcomes getHot config subs (snd (fetchFromSubreddit getHot config sub w))"

fun worldAfter :: "'w getHot \<Rightarrow> scraperConfig \<Rightarrow> string list \<Rightarrow> 'w \<Rightarrow> 'w" where
  "worldAfter getHot config [] w = w"
| "worldAfter getHot config (sub # subs) w =
     worldAfter getHot config subs (snd (fetchFromSubreddit getHot config sub w))"

text \<open>The posts a source contributes: none when it failed.\<close>

fun memesOf :: "string \<times> (error + memePost list) \<Rightarrow> memePost list" where
  "memesOf (sub, Inl e) = []"
| "memesOf (sub, Inr memes) = memes"

text \<open>What the console shows for a source.\<close>

fun logOf :: "string \<times> (error + memePost list) \<Rightarrow> logEvent list" where
  "logOf (sub, Inl e) = [LogScraping sub, LogError sub e]"
| "logOf (sub, Inr memes) = [LogScraping sub, LogFound (length memes) sub]"

text \<open>The accumulated sequence before the sort: the fetch order.\<close>

definition fetchOrder :: "'w getHot \<Rightarrow> scraperConfig \<Rightarrow> 'w \<Rightarrow> memePost list" where
  "fetchOrder getHot config w =
     concat (map memesOf (outcomes getHot config (subreddits config) w))"

definition byUpvotes :: "memePost \<Rightarrow> memePost \<Rightarrow> int" where
  "byUpvotes a b = upvotes (engagement b) - upvotes (engagement a)"

text \<open>The distinct elements of a list, each at its first occurrence.\<close>

fun first_occurrences :: "'a list \<Rightarrow> 'a list" where
  "first_occurrences [] = []"
| "first_occurrences (x # xs) = x # first_occurrences (removeAll x xs)"

text \<open>
  The frequency table before the sort: every token of the flattened token lists
  with the number of its occurrences, in the order of first occurrence.
\<close>

definition freqTable :: "string list \<Rightarrow> (string \<times> nat) list" where
  "freqTable ts = map (\<lambda>t. (t, count_list ts t)) (first_occurrences ts)"

definition byCount :: "string \<times> nat \<Rightarrow> string \<times> nat \<Rightarrow> int" where
  "byCount a b = int (snd b) - int (snd a)"

text \<open>
  A token at position \<open>i\<close> with \<open>n\<close> letters: a dollar sign at \<open>i\<close>, behind it \<open>n\<close>
  uppercase Latin letters, between one and five, and behind them a word boundary: the
  end of the text or a character that is no letter, digit or underscore.
\<close>

definition token_at :: "string \<Rightarrow> nat \<Rightarrow> nat \<Rightarrow> bool" where
  "token_at text i n =
     (i + n < length text \<and> text ! i = CHR ''$'' \<and> 1 \<le> n \<and> n \<le> 5
      \<and> list_all isUpper (take n (drop (Suc i) text))
      \<and> (i + n + 1 = length text \<or> \<not> isWordChar (text ! (i + n + 1))))"

text \<open>The tokens of a text, without their dollar signs, in the order of the text.\<close>

definition tokens_in_order :: "string \<Rightarrow> string list" where
  "tokens_in_order text =
     [take n (drop (Suc i) text). i \<leftarrow> [0..<length text], n \<leftarrow> [1..<6], token_at text i n]"

text \<open>The letters the greedy \<^verbatim>\<open>[A-Z]{1,5}\<close> takes from position \<open>j\<close>.\<close>

definition upperRun :: "string \<Rightarrow> nat \<Rightarrow> nat" where
  "upperRun s j = length (takeWhile isUpper (take 5 (drop j s)))"

text \<open>A position at which the expression of the extractor matches.\<close>

definition tickerStart :: "string \<Rightarrow> nat \<Rightarrow> bool" where
  "tickerStart s i =
     (i < length s \<and> s ! i = CHR ''$'' \<and> 1 \<le> upperRun s (Suc i)
      \<and> \<not> wordAt s (Suc i + upperRun s (Suc i)))"

section \<open>Sample data\<close>

definition samplePost :: submission where
  "samplePost =
     \<lparr> post_id = ''p1'', title = ''$SPY to the moon'', selftext = None, url = None,
       permalink = ''/r/wallstreetbets/comments/p1'', author = Some ''trader'',
       created_utc = 1700000000, score = 500, upvote_ratio = 1, num_comments = 10,
       total_awards_received = None, over_18 = False, is_gallery = False, is_video = False,
       post_hint = None, media = None, preview = None, media_metadata = None \<rparr>"

definition sampleConfig :: scraperConfig where
  "sampleConfig =
     \<lparr> subreddits = [''wallstreetbets''], minUpvotes = 100, minComments = 0, timeframe = Day,
       limit = 50, includeNSFW = False \<rparr>"

definition galleryPost :: submission where
  "galleryPost = samplePost\<lparr>is_gallery := True\<rparr>"

definition threePosts :: "submission list" where
  "threePosts =
     [galleryPost\<lparr>post_id := ''a'', score := 300\<rparr>,
      galleryPost\<lparr>post_id := ''b'', score := 900\<rparr>,
      galleryPost\<lparr>post_id := ''c'', score := 300\<rparr>]"

text \<open>
  A fetch service whose world counts the fetches: ''stocks'' is rate limited,
  ''broken'' has a record without author between two good ones, every other
  subreddit gives the three posts.
\<close>

definition sampleHot :: "nat getHot" where
  "sampleHot w sub n =
     (if sub = ''stocks'' then Inl (FetchError ''rate limited'')
      else if sub = ''broken'' then Inr [galleryPost, galleryPost\<lparr>author := None\<rparr>, galleryPost]
      else Inr (take n threePosts),
      Suc w)"

definition sampleMeme :: "string list \<Rightarrow> memePost" where
  "sampleMeme ts =
     \<lparr> meme_id = ''p1'', meme_title = ''title'', meme_url = ''https://reddit.com/r/x'',
       mediaUrl = None, meme_author = ''trader'', subreddit = ''wallstreetbets'',
       createdAt = 1700000000000,
       engagement = \<lparr> upvotes = 500, upvoteRatio = 1, comments = 10, awards = 0 \<rparr>,
       tickers = ts, postType = Image, isNSFW = False \<rparr>"

definition emptyPartial :: partialConfig where
  "emptyPartial =
     \<lparr> p_subreddits = None, p_minUpvotes = None, p_minComments = None, p_timeframe = None,
       p_limit = None, p_includeNSFW = None \<rparr>"

section \<open>The regular expressions of the classifier are suffix tests\<close>

lemma rx_exec_None:
  "rx_exec r s i = None \<longleftrightarrow> (\<forall>k. i \<le> k \<and> k \<le> length s \<longrightarrow> rx_ends r s k = [])"
proof -
  have "rx_exec r s i = None \<longleftrightarrow> find (\<lambda>k. rx_ends r s k \<noteq> []) [i..<Suc (length s)] = None"
    by (simp add: rx_exec_def split: option.splits)
  also have "\<dots> \<longleftrightarrow> (\<forall>k\<in>set [i..<Suc (length s)]. rx_ends r s k = [])"
    by (simp only: find_None_iff) blast
  also have "\<dots> \<longleftrightarrow> (\<forall>k. i \<le> k \<and> k \<le> length s \<longrightarrow> rx_ends r s k = [])"
    by (auto simp del: upt_Suc)
  finally show ?thesis .
qed

lemma rx_test_iff: "rx_test r s \<longleftrightarrow> (\<exists>k\<le>length s. rx_ends r s k \<noteq> [])"
  by (auto simp: rx_test_def rx_exec_None)

lemma ends_Lit_Seq:
  "rx_ends (Seq (Lit t) r) s i \<noteq> [] \<longleftrightarrow>
     take (length t) (drop i s) = t \<and> rx_ends r s (i + length t) \<noteq> []"
  by simp

lemma ends_Alt_Eol:
  "rx_ends (Seq (Alt a b) Eol) s i \<noteq> [] \<longleftrightarrow>
     rx_ends (Seq a Eol) s i \<noteq> [] \<or> rx_ends (Seq b Eol) s i \<noteq> []"
  by auto

lemma ends_Lit_Eol:
  "rx_ends (Seq (Lit t) Eol) s i \<noteq> [] \<longleftrightarrow> i \<le> length s \<and> drop i s = t"
  by auto

lemma take_drop_split:
  "take (length a) (drop k s) = a \<and> drop (k + length a) s = b \<longleftrightarrow> drop k s = a @ b"
proof
  assume h: "take (length a) (drop k s) = a \<and> drop (k + length a) s = b"
  have "drop k s = take (length a) (drop k s) @ drop (length a) (drop k s)"
    by (simp only: append_take_drop_id)
  with h show "drop k s = a @ b" by (simp add: add.commute)
next
  assume "drop k s = a @ b"
  then show "take (length a) (drop k s) = a \<and> drop (k + length a) s = b"
    by (metis add.commute append_eq_conv_conj drop_drop)
qed

lemma suffix_iff_drop: "suffix t s \<longleftrightarrow> (\<exists>k\<le>length s. drop k s = t)"
  by (metis suffix_drop suffix_def append_eq_conv_conj nat_le_linear drop_all)

lemma ends_Lit_Lit_Eol:
  "take (length a) (drop k s) = a \<and> rx_ends (Seq (Lit b) Eol) s (k + length a) \<noteq> [] \<longleftrightarrow>
     k \<le> length s \<and> drop k s = a @ b"
proof -
  have "k + length a \<le> length s" if h: "drop k s = a @ b" and le: "k \<le> length s"
  proof -
    have "length (drop k s) = length (a @ b)" by (simp only: h)
    then have "length s - k = length a + length b" by simp
    with le show ?thesis by linarith
  qed
  then show ?thesis
    using take_drop_split [of a k s b] by (auto simp only: ends_Lit_Eol)
qed

lemma str_includes_iff: "str_includes s t \<longleftrightarrow> sublist t s"
proof -
  have "str_includes s t \<longleftrightarrow> (\<exists>k\<le>length s. take (length t) (drop k s) = t)"
    by (simp add: str_includes_def list_ex_iff less_Suc_eq_le Bex_def del: upt_Suc)
  also have "\<dots> \<longleftrightarrow> sublist t s"
  proof
    assume "\<exists>k\<le>length s. take (length t) (drop k s) = t"
    then obtain k where "take (length t) (drop k s) = t" by blast
    then have "s = take k s @ t @ drop (length t) (drop k s)"
      by (metis append_take_drop_id)
    then show "sublist t s" unfolding sublist_def by blast
  next
    assume "sublist t s"
    then obtain ps ss where "s = ps @ t @ ss" unfolding sublist_def by blast
    then have "length ps \<le> length s \<and> take (length t) (drop (length ps) s) = t" by simp
    then show "\<exists>k\<le>length s. take (length t) (drop k s) = t" by blast
  qed
  finally show ?thesis .
qed

lemma rx_test_ext2:
  "rx_test (Seq (Lit a) (Seq (Alt (Lit b) (Lit c)) Eol)) s \<longleftrightarrow>
     suffix (a @ b) s \<or> suffix (a @ c) s"
proof -
  have "rx_test (Seq (Lit a) (Seq (Alt (Lit b) (Lit c)) Eol)) s \<longleftrightarrow>
      (\<exists>k\<le>length s.
         (take (length a) (drop k s) = a \<and> rx_ends (Seq (Lit b) Eol) s (k + length a) \<noteq> [])
       \<or> (take (length a) (drop k s) = a \<and> rx_ends (Seq (Lit c) Eol) s (k + length a) \<noteq> []))"
    unfolding rx_test_iff ends_Lit_Seq [where r = "Seq (Alt _ _) Eol"] ends_Alt_Eol by blast
  also have "\<dots> \<longleftrightarrow> suffix (a @ b) s \<or> suffix (a @ c) s"
    unfolding ends_Lit_Lit_Eol suffix_iff_drop by blast
  finally show ?thesis .
qed

lemma rx_test_ext3:
  "rx_test (Seq (Lit a) (Seq (Alt (Lit b) (Alt (Lit c) (Lit d))) Eol)) s \<longleftrightarrow>
     suffix (a @ b) s \<or> suffix (a @ c) s \<or> suffix (a @ d) s"
proof -
  have "rx_test (Seq (Lit a) (Seq (Alt (Lit b) (Alt (Lit c) (Lit d))) Eol)) s \<longleftrightarrow>
      (\<exists>k\<le>length s.
         (take (length a) (drop k s) = a \<and> rx_ends (Seq (Lit b) Eol) s (k + length a) \<noteq> [])
       \<or> (take (length a) (drop k s) = a \<and> rx_ends (Seq (Lit c) Eol) s (k + length a) \<noteq> [])
       \<or> (take (length a) (drop k s) = a \<and> rx_ends (Seq (Lit d) Eol) s (k + length a) \<noteq> []))"
    unfolding rx_test_iff ends_Lit_Seq [where r = "Seq (Alt _ _) Eol"] ends_Alt_Eol by blast
  also have "\<dots> \<longleftrightarrow> suffix (a @ b) s \<or> suffix (a @ c) s \<or> suffix (a @ d) s"
    unfolding ends_Lit_Lit_Eol suffix_iff_drop by blast
  finally show ?thesis .
qed

lemma rx_test_ext4:
  "rx_test (Seq (Lit a) (Seq (Alt (Lit b) (Alt (Lit c) (Alt (Lit d) (Lit e)))) Eol)) s \<longleftrightarrow>
     suffix (a @ b) s \<or> suffix (a @ c) s \<or> suffix (a @ d) s \<or> suffix (a @ e) s"
proof -
  have "rx_test (Seq (Lit a) (Seq (Alt (Lit b) (Alt (Lit c) (Alt (Lit d) (Lit e)))) Eol)) s \<longleftrightarrow>
      (\<exists>k\<le>length s.
         (take (length a) (drop k s) = a \<and> rx_ends (Seq (Lit b) Eol) s (k + length a) \<noteq> [])
       \<or> (take (length a) (drop k s) = a \<and> rx_ends (Seq (Lit c) Eol) s (k + length a) \<noteq> [])
       \<or> (take (length a) (drop k s) = a \<and> rx_ends (Seq (Lit d) Eol) s (k + length a) \<noteq> [])
       \<or> (take (length a) (drop k s) = a \<and> rx_ends (Seq (Lit e) Eol) s (k + length a) \<noteq> []))"
    unfolding rx_test_iff ends_Lit_Seq [where r = "Seq (Alt _ _) Eol"] ends_Alt_Eol by blast
  also have "\<dots> \<longleftrightarrow>
      suffix (a @ b) s \<or> suffix (a @ c) s \<or> suffix (a @ d) s \<or> suffix (a @ e) s"
    unfolding ends_Lit_Lit_Eol suffix_iff_drop by blast
  finally show ?thesis .
qed

lemma rx_gif_iff: "rx_test rx_gif u \<longleftrightarrow> suffix ''.gif'' u \<or> suffix ''.gifv'' u"
  unfolding rx_gif_def rx_test_ext2 by simp

lemma rx_image_iff:
  "rx_test rx_image u \<longleftrightarrow>
     suffix ''.jpg'' u \<or> suffix ''.jpeg'' u \<or> suffix ''.png'' u \<or> suffix ''.webp'' u"
  unfolding rx_image_def rx_test_ext4 by simp

lemma rx_video_iff:
  "rx_test rx_video u \<longleftrightarrow> suffix ''.mp4'' u \<or> suffix ''.webm'' u \<or> suffix ''.mov'' u"
  unfolding rx_video_def rx_test_ext3 by simp

lemma determinePostType_chain:
  "determinePostType post =
     (let u = (case url post of None \<Rightarrow> [] | Some v \<Rightarrow> toLowerCase v) in
      if is_gallery post then Gallery
      else if post_hint post = Some ''image'' then Image
      else if post_hint post = Some ''hosted:video'' \<or> post_hint post = Some ''rich:video''
        then Video
      else if suffix ''.gif'' u \<or> suffix ''.gifv'' u then Gif
      else if suffix ''.jpg'' u \<or> suffix ''.jpeg'' u \<or> suffix ''.png'' u \<or> suffix ''.webp'' u
        then Image
      else if suffix ''.mp4'' u \<or> suffix ''.webm'' u \<or> suffix ''.mov'' u then Video
      else if sublist ''i.redd.it'' u \<or> sublist ''i.imgur.com'' u then Image
      else if sublist ''v.redd.it'' u then Video
      else Link)"
  unfolding determinePostType_def rx_gif_iff rx_image_iff rx_video_iff str_includes_iff Let_def
  by simp

section \<open>Evaluations on the sample data\<close>

lemma lower_jpg: "toLowerCase ''https://example.com/a.JPG'' = ''https://example.com/a.jpg''"
  by code_simp

lemma lower_mp4: "toLowerCase ''https://example.com/a.mp4'' = ''https://example.com/a.mp4''"
  by code_simp

lemma lower_not_a_url: "toLowerCase ''Not a URL'' = ''not a url''"
  by code_simp

lemma no_ext_not_a_url:
  "\<not> (\<exists>e \<in> {''.gif'', ''.gifv'', ''.jpg'', ''.jpeg'', ''.png'', ''.webp'', ''.mp4'',
                     ''.webm'', ''.mov''}. suffix e ''not a url'')"
  by code_simp

lemma no_marker_not_a_url:
  "\<not> (\<exists>d \<in> {''i.redd.it'', ''i.imgur.com'', ''v.redd.it''}. sublist d ''not a url'')"
  by code_simp

section \<open>The classifier\<close>

text \<open>
  Claim C1. The classifier assigns the media category by nine steps, the first that
  matches winning: the gallery flag, the post-type hint "image", the hints
  "hosted:video" and "rich:video", the suffixes .gif/.gifv, .jpg/.jpeg/.png/.webp and
  .mp4/.webm/.mov of the lower-cased URL, a direct-image marker in the URL, a
  direct-video marker, else link. The three regular expressions are exactly the
  suffix tests and \<^verbatim>\<open>includes\<close> is the substring test. In particular a post with
  the gallery flag and a .jpg URL is a gallery, and a post (without the gallery flag,
  which step one reads first) with hint "image" and a .mp4 URL is an image.
\<close>

theorem determinePostType_first_match:
  "determinePostType post =
     (let u = (case url post of None \<Rightarrow> [] | Some v \<Rightarrow> toLowerCase v) in
      if is_gallery post then Gallery
      else if post_hint post = Some ''image'' then Image
      else if post_hint post = Some ''hosted:video'' \<or> post_hint post = Some ''rich:video''
        then Video
      else if suffix ''.gif'' u \<or> suffix ''.gifv'' u then Gif
      else if suffix ''.jpg'' u \<or> suffix ''.jpeg'' u \<or> suffix ''.png'' u \<or> suffix ''.webp'' u
        then Image
      else if suffix ''.mp4'' u \<or> suffix ''.webm'' u \<or> suffix ''.mov'' u then Video
      else if sublist ''i.redd.it'' u \<or> sublist ''i.imgur.com'' u then Image
      else if sublist ''v.redd.it'' u then Video
      else Link)
   \<and> (is_gallery post \<and> (\<exists>v. url post = Some v \<and> suffix ''.jpg'' (toLowerCase v))
        \<longrightarrow> determinePostType post = Gallery)
   \<and> (\<not> is_gallery post \<and> post_hint post = Some ''image''
        \<and> (\<exists>v. url post = Some v \<and> suffix ''.mp4'' (toLowerCase v))
        \<longrightarrow> determinePostType post = Image)"
  using determinePostType_chain [of post] by (simp add: Let_def)

theorem determinePostType_first_match_witness:
  "determinePostType (samplePost\<lparr>is_gallery := True, url := Some ''https://example.com/a.JPG''\<rparr>)
     = Gallery
   \<and> determinePostType
       (samplePost\<lparr>post_hint := Some ''image'', url := Some ''https://example.com/a.mp4''\<rparr>)
     = Image"
proof -
  have s1: "suffix ''.jpg'' ''https://example.com/a.jpg''"
    by (simp add: suffix_def)
  have s2: "suffix ''.mp4'' ''https://example.com/a.mp4''"
    by (simp add: suffix_def)
  have g: "is_gallery (samplePost\<lparr>is_gallery := True, url := Some ''https://example.com/a.JPG''\<rparr>)
      \<and> (\<exists>v. url (samplePost\<lparr>is_gallery := True, url := Some ''https://example.com/a.JPG''\<rparr>) = Some v
            \<and> suffix ''.jpg'' (toLowerCase v))"
    using s1 by (simp add: lower_jpg)
  have h: "\<not> is_gallery (samplePost\<lparr>post_hint := Some ''image'', url := Some ''https://example.com/a.mp4''\<rparr>)
      \<and> post_hint (samplePost\<lparr>post_hint := Some ''image'', url := Some ''https://example.com/a.mp4''\<rparr>)
          = Some ''image''
      \<and> (\<exists>v. url (samplePost\<lparr>post_hint := Some ''image'', url := Some ''https://example.com/a.mp4''\<rparr>) = Some v
            \<and> suffix ''.mp4'' (toLowerCase v))"
    using s2 by (simp add: lower_mp4 samplePost_def)
  from g h
    determinePostType_first_match
      [of "samplePost\<lparr>is_gallery := True, url := Some ''https://example.com/a.JPG''\<rparr>"]
    determinePostType_first_match
      [of "samplePost\<lparr>post_hint := Some ''image'', url := Some ''https://example.com/a.mp4''\<rparr>"]
  show ?thesis by blast
qed

text \<open>
  Claim C9. The classifier is total and returns one of the five categories; a post
  without URL, hint and flag is a link, and so is every post that no earlier step
  matches, whatever its URL.
\<close>

theorem determinePostType_total:
  "determinePostType post \<in> {Image, Gif, Video, Gallery, Link}
   \<and> (\<not> is_gallery post \<and> post_hint post = None \<and> url post = None
        \<longrightarrow> determinePostType post = Link)
   \<and> (let u = (case url post of None \<Rightarrow> [] | Some v \<Rightarrow> toLowerCase v) in
       \<not> is_gallery post
       \<and> post_hint post \<notin> {Some ''image'', Some ''hosted:video'', Some ''rich:video''}
       \<and> \<not> (\<exists>e \<in> {''.gif'', ''.gifv'', ''.jpg'', ''.jpeg'', ''.png'', ''.webp'', ''.mp4'',
                     ''.webm'', ''.mov''}. suffix e u)
       \<and> \<not> (\<exists>d \<in> {''i.redd.it'', ''i.imgur.com'', ''v.redd.it''}. sublist d u)
        \<longrightarrow> determinePostType post = Link)"
proof -
  have "determinePostType post \<in> {Image, Gif, Video, Gallery, Link}"
    by (cases "determinePostType post") simp_all
  moreover have "\<not> is_gallery post \<and> post_hint post = None \<and> url post = None
        \<longrightarrow> determinePostType post = Link"
    using determinePostType_chain [of post] by (simp add: Let_def)
  moreover have "(let u = (case url post of None \<Rightarrow> [] | Some v \<Rightarrow> toLowerCase v) in
       \<not> is_gallery post
       \<and> post_hint post \<notin> {Some ''image'', Some ''hosted:video'', Some ''rich:video''}
       \<and> \<not> (\<exists>e \<in> {''.gif'', ''.gifv'', ''.jpg'', ''.jpeg'', ''.png'', ''.webp'', ''.mp4'',
                     ''.webm'', ''.mov''}. suffix e u)
       \<and> \<not> (\<exists>d \<in> {''i.redd.it'', ''i.imgur.com'', ''v.redd.it''}. sublist d u)
        \<longrightarrow> determinePostType post = Link)"
    using determinePostType_chain [of post] by (simp add: Let_def)
  ultimately show ?thesis by blast
qed

theorem determinePostType_total_witness:
  "determinePostType samplePost = Link
   \<and> determinePostType (samplePost\<lparr>url := Some ''Not a URL''\<rparr>) = Link"
proof -
  have a: "\<not> is_gallery samplePost \<and> post_hint samplePost = None \<and> url samplePost = None"
    by (simp add: samplePost_def)
  have b: "(let u = (case url (samplePost\<lparr>url := Some ''Not a URL''\<rparr>) of
                      None \<Rightarrow> [] | Some v \<Rightarrow> toLowerCase v) in
       \<not> is_gallery (samplePost\<lparr>url := Some ''Not a URL''\<rparr>)
       \<and> post_hint (samplePost\<lparr>url := Some ''Not a URL''\<rparr>)
            \<notin> {Some ''image'', Some ''hosted:video'', Some ''rich:video''}
       \<and> \<not> (\<exists>e \<in> {''.gif'', ''.gifv'', ''.jpg'', ''.jpeg'', ''.png'', ''.webp'', ''.mp4'',
                     ''.webm'', ''.mov''}. suffix e u)
       \<and> \<not> (\<exists>d \<in> {''i.redd.it'', ''i.imgur.com'', ''v.redd.it''}. sublist d u))"
  proof -
    have "post_hint (samplePost\<lparr>url := Some ''Not a URL''\<rparr>)
            \<notin> {Some ''image'', Some ''hosted:video'', Some ''rich:video''}"
      by (simp add: samplePost_def)
    moreover have "\<not> is_gallery (samplePost\<lparr>url := Some ''Not a URL''\<rparr>)"
      by (simp add: samplePost_def)
    moreover have "(case url (samplePost\<lparr>url := Some ''Not a URL''\<rparr>) of
                      None \<Rightarrow> [] | Some v \<Rightarrow> toLowerCase v) = ''not a url''"
      by (simp add: lower_not_a_url)
    ultimately show ?thesis
      using no_ext_not_a_url no_marker_not_a_url unfolding Let_def by presburger
  qed
  from a b determinePostType_total [of samplePost]
    determinePostType_total [of "samplePost\<lparr>url := Some ''Not a URL''\<rparr>"]
  show ?thesis unfolding Let_def by blast
qed

section \<open>The inclusion filter\<close>

text \<open>
  Claim C3. The filter rejects a post if and only if the post has no visual content
  (its category is not image, animated image, video or gallery), or it is adult-flagged
  and the configuration excludes adult content, or its score is below the minimum
  upvotes, or its comment count is below the minimum comments.
\<close>

theorem shouldIncludePost_rejects_iff:
  "(\<not> shouldIncludePost config post) \<longleftrightarrow>
     (determinePostType post \<notin> {Image, Gif, Video, Gallery}
      \<or> (over_18 post \<and> \<not> includeNSFW config)
      \<or> score post < minUpvotes config
      \<or> num_comments post < minComments config)"
  by (simp add: shouldIncludePost_def isMemePost_def)

theorem shouldIncludePost_rejects_iff_witness:
  "\<not> shouldIncludePost sampleConfig (samplePost\<lparr>is_gallery := True, over_18 := True\<rparr>)
   \<and> shouldIncludePost sampleConfig (samplePost\<lparr>is_gallery := True\<rparr>)
   \<and> \<not> shouldIncludePost (sampleConfig\<lparr>minUpvotes := 10\<rparr>)
         (samplePost\<lparr>is_gallery := True, score := 5\<rparr>)"
proof -
  have g: "determinePostType (samplePost\<lparr>is_gallery := True, over_18 := True\<rparr>) = Gallery"
      "determinePostType (samplePost\<lparr>is_gallery := True\<rparr>) = Gallery"
      "determinePostType (samplePost\<lparr>is_gallery := True, score := 5\<rparr>) = Gallery"
    by (simp_all add: determinePostType_def)
  have "\<not> shouldIncludePost sampleConfig (samplePost\<lparr>is_gallery := True, over_18 := True\<rparr>)"
    using shouldIncludePost_rejects_iff
      [of sampleConfig "samplePost\<lparr>is_gallery := True, over_18 := True\<rparr>"]
    by (simp add: sampleConfig_def)
  moreover have "shouldIncludePost sampleConfig (samplePost\<lparr>is_gallery := True\<rparr>)"
    using shouldIncludePost_rejects_iff [of sampleConfig "samplePost\<lparr>is_gallery := True\<rparr>"] g
    by (simp add: sampleConfig_def samplePost_def)
  moreover have "\<not> shouldIncludePost (sampleConfig\<lparr>minUpvotes := 10\<rparr>)
         (samplePost\<lparr>is_gallery := True, score := 5\<rparr>)"
    using shouldIncludePost_rejects_iff
      [of "sampleConfig\<lparr>minUpvotes := 10\<rparr>" "samplePost\<lparr>is_gallery := True, score := 5\<rparr>"]
    by simp
  ultimately show ?thesis by blast
qed

section \<open>The aggregator\<close>

lemma fetchLoop_outcomes:
  "fetchLoop getHot config subs (acc, lg, w) =
     (acc @ concat (map memesOf (outcomes getHot config subs w)),
      lg @ concat (map logOf (outcomes getHot config subs w)),
      worldAfter getHot config subs w)"
proof (induction subs arbitrary: acc lg w)
  case Nil
  then show ?case by simp
next
  case (Cons sub subs)
  obtain r w' where f: "fetchFromSubreddit getHot config sub w = (r, w')"
    by (cases "fetchFromSubreddit getHot config sub w")
  show ?case
  proof (cases r)
    case (Inl e)
    with f Cons.IH show ?thesis by simp
  next
    case (Inr memes)
    with f Cons.IH show ?thesis by simp
  qed
qed

lemma fetchMemes_outcomes:
  "fetchMemes getHot config w =
     (Inr (sortBy byUpvotes (fetchOrder getHot config w)),
      concat (map logOf (outcomes getHot config (subreddits config) w)),
      worldAfter getHot config (subreddits config) w)"
  by (simp add: fetchMemes_def fetchLoop_outcomes fetchOrder_def byUpvotes_def [abs_def])

lemma mset_insertBy: "mset (insertBy cmp x ys) = add_mset x (mset ys)"
  by (induction ys) auto

lemma mset_sortBy: "mset (sortBy cmp xs) = mset xs"
  by (induction xs) (auto simp: sortBy_def mset_insertBy)

lemma set_sortBy: "set (sortBy cmp xs) = set xs"
  using mset_sortBy [of cmp xs] by (metis set_mset_mset)

lemma filter_insertBy:
  fixes f :: "'a \<Rightarrow> int"
  shows "filter (\<lambda>y. f y = v) (insertBy (\<lambda>a b. f b - f a) x ys) =
     (if f x = v then x # filter (\<lambda>y. f y = v) ys else filter (\<lambda>y. f y = v) ys)"
  by (induction ys) auto

lemma filter_sortBy:
  fixes f :: "'a \<Rightarrow> int"
  shows "filter (\<lambda>y. f y = v) (sortBy (\<lambda>a b. f b - f a) xs) = filter (\<lambda>y. f y = v) xs"
  by (induction xs) (auto simp: sortBy_def filter_insertBy)

lemma set_insertBy: "set (insertBy cmp x ys) = insert x (set ys)"
  by (induction ys) auto

lemma sorted_insertBy:
  fixes f :: "'a \<Rightarrow> int"
  shows "sorted_wrt (\<lambda>a b. f b \<le> f a) ys \<Longrightarrow>
     sorted_wrt (\<lambda>a b. f b \<le> f a) (insertBy (\<lambda>a b. f b - f a) x ys)"
  by (induction ys) (auto simp: set_insertBy)

lemma sorted_sortBy:
  fixes f :: "'a \<Rightarrow> int"
  shows "sorted_wrt (\<lambda>a b. f b \<le> f a) (sortBy (\<lambda>a b. f b - f a) xs)"
  by (induction xs) (auto simp: sortBy_def sorted_insertBy)

lemma collectMemes_Inr_iff:
  "collectMemes config s posts acc = Inr r \<longleftrightarrow>
     (\<exists>ms. r = acc @ ms
        \<and> list_all2 (\<lambda>p m. convertToMemePost p s = Inr m) (filter (shouldIncludePost config) posts) ms)"
proof (induction posts arbitrary: acc)
  case Nil
  then show ?case by auto
next
  case (Cons p posts)
  show ?case
  proof (cases "shouldIncludePost config p")
    case False
    then show ?thesis using Cons.IH by simp
  next
    case True
    show ?thesis
    proof (cases "convertToMemePost p s")
      case (Inl e)
      with True show ?thesis by (simp add: list_all2_Cons1)
    next
      case (Inr m)
      with True show ?thesis using Cons.IH [of "acc @ [m]"]
        by (auto simp: list_all2_Cons1)
    qed
  qed
qed

lemma convertToMemePost_author:
  "author post = Some a \<Longrightarrow> \<exists>m. convertToMemePost post s = Inr m"
  by (simp add: convertToMemePost_def Let_def)

lemma normalize_all:
  "\<forall>p\<in>set posts. author p \<noteq> None \<Longrightarrow>
     \<exists>ms. list_all2 (\<lambda>p m. convertToMemePost p s = Inr m) posts ms"
proof (induction posts)
  case Nil
  then show ?case by simp
next
  case (Cons p posts)
  then obtain ms where ms: "list_all2 (\<lambda>p m. convertToMemePost p s = Inr m) posts ms" by auto
  from Cons.prems obtain a where "author p = Some a" by auto
  then obtain m where "convertToMemePost p s = Inr m"
    using convertToMemePost_author by blast
  with ms have "list_all2 (\<lambda>p m. convertToMemePost p s = Inr m) (p # posts) (m # ms)" by simp
  then show ?case by blast
qed

lemma collectMemes_authors:
  assumes "\<forall>p\<in>set posts. author p \<noteq> None"
  shows "\<exists>ms. collectMemes config s posts [] = Inr ms
     \<and> list_all2 (\<lambda>p m. convertToMemePost p s = Inr m) (filter (shouldIncludePost config) posts) ms"
proof -
  from assms have "\<forall>p\<in>set (filter (shouldIncludePost config) posts). author p \<noteq> None" by simp
  then obtain ms where
    "list_all2 (\<lambda>p m. convertToMemePost p s = Inr m) (filter (shouldIncludePost config) posts) ms"
    using normalize_all by blast
  then show ?thesis using collectMemes_Inr_iff [of config s posts "[]"] by auto
qed

lemma threePosts_authors: "\<forall>p\<in>set (take 50 threePosts). author p \<noteq> None"
  by (simp add: threePosts_def galleryPost_def samplePost_def)

lemma threePosts_included:
  "filter (shouldIncludePost (sampleConfig\<lparr>subreddits := [''stocks'', ''wallstreetbets'']\<rparr>))
     (take 50 threePosts) = threePosts"
  by (simp add: threePosts_def galleryPost_def samplePost_def sampleConfig_def
      shouldIncludePost_def isMemePost_def determinePostType_def)

text \<open>
  Claim C4. A source whose fetch fails contributes no posts, its error is logged and
  not raised, and the loop goes on with the remaining sources: \<^verbatim>\<open>fetchMemes\<close>
  resolves with the sorted memes of the successful sources, whatever the sources
  give. With a failing source a and a source b that gives posts, the result is
  exactly the filtered and normalized posts of b, and the console shows the error
  of a.
\<close>

theorem fetchMemes_partial_failure:
  "fetchMemes getHot config w =
     (Inr (sortBy byUpvotes (concat (map memesOf (outcomes getHot config (subreddits config) w)))),
      concat (map logOf (outcomes getHot config (subreddits config) w)),
      worldAfter getHot config (subreddits config) w)
   \<and> (subreddits config = [a, b]
       \<and> getHot w a (limit config) = (Inl e, w1)
       \<and> getHot w1 b (limit config) = (Inr posts, w2)
       \<and> list_all2 (\<lambda>p m. convertToMemePost p b = Inr m)
            (filter (shouldIncludePost config) posts) memes
      \<longrightarrow> fetchMemes getHot config w =
            (Inr (sortBy byUpvotes memes),
             [LogScraping a, LogError a e, LogScraping b, LogFound (length memes) b], w2))"
proof -
  have gen: "fetchMemes getHot config w =
     (Inr (sortBy byUpvotes (concat (map memesOf (outcomes getHot config (subreddits config) w)))),
      concat (map logOf (outcomes getHot config (subreddits config) w)),
      worldAfter getHot config (subreddits config) w)"
    using fetchMemes_outcomes [of getHot config w] by (simp add: fetchOrder_def)
  have two: "fetchMemes getHot config w =
            (Inr (sortBy byUpvotes memes),
             [LogScraping a, LogError a e, LogScraping b, LogFound (length memes) b], w2)"
    if subs: "subreddits config = [a, b]"
      and fa: "getHot w a (limit config) = (Inl e, w1)"
      and fb: "getHot w1 b (limit config) = (Inr posts, w2)"
      and norm: "list_all2 (\<lambda>p m. convertToMemePost p b = Inr m)
            (filter (shouldIncludePost config) posts) memes"
  proof -
    have ra: "fetchFromSubreddit getHot config a w = (Inl e, w1)"
      using fa by (simp add: fetchFromSubreddit_def)
    have "collectMemes config b posts [] = Inr memes"
      using norm collectMemes_Inr_iff [of config b posts "[]" memes] by simp
    then have rb: "fetchFromSubreddit getHot config b w1 = (Inr memes, w2)"
      using fb by (simp add: fetchFromSubreddit_def)
    show ?thesis
      unfolding gen subs using ra rb by simp
  qed
  from gen two show ?thesis by blast
qed

theorem fetchMemes_partial_failure_witness:
  "\<exists>memes. list_all2 (\<lambda>p m. convertToMemePost p ''wallstreetbets'' = Inr m) threePosts memes
     \<and> fetchMemes sampleHot (sampleConfig\<lparr>subreddits := [''stocks'', ''wallstreetbets'']\<rparr>) 0 =
         (Inr (sortBy byUpvotes memes),
          [LogScraping ''stocks'', LogError ''stocks'' (FetchError ''rate limited''),
           LogScraping ''wallstreetbets'', LogFound 3 ''wallstreetbets''], 2)"
proof -
  let ?config = "sampleConfig\<lparr>subreddits := [''stocks'', ''wallstreetbets'']\<rparr>"
  obtain memes where
    n: "list_all2 (\<lambda>p m. convertToMemePost p ''wallstreetbets'' = Inr m)
          (filter (shouldIncludePost ?config) (take 50 threePosts)) memes"
    using collectMemes_authors [OF threePosts_authors] by blast
  then have len: "length memes = 3"
    unfolding threePosts_included by (simp add: list_all2_conv_all_nth threePosts_def)
  have s: "subreddits ?config = [''stocks'', ''wallstreetbets'']" by simp
  have fa: "sampleHot 0 ''stocks'' (limit ?config) = (Inl (FetchError ''rate limited''), 1)"
    by (simp add: sampleHot_def)
  have fb: "sampleHot 1 ''wallstreetbets'' (limit ?config) = (Inr (take 50 threePosts), 2)"
    by (simp add: sampleHot_def sampleConfig_def)
  from s fa fb n
    fetchMemes_partial_failure [of sampleHot ?config 0 "''stocks''" "''wallstreetbets''"
      "FetchError ''rate limited''" 1 "take 50 threePosts" 2 memes]
  have "fetchMemes sampleHot ?config 0 =
         (Inr (sortBy byUpvotes memes),
          [LogScraping ''stocks'', LogError ''stocks'' (FetchError ''rate limited''),
           LogScraping ''wallstreetbets'', LogFound (length memes) ''wallstreetbets''], 2)"
    by blast
  with n len show ?thesis unfolding threePosts_included by auto
qed

text \<open>
  Claim C6. The sequence \<^verbatim>\<open>fetchMemes\<close> returns is sorted by upvotes, descending,
  it is a permutation of the accumulated sequence, and the sort is stable: the posts
  of any one upvote count are in their fetch order (source after source, and within
  a source in the order of its posts).
\<close>

theorem fetchMemes_sorted_stable:
  "\<exists>ms. fst (fetchMemes getHot config w) = Inr ms
     \<and> sorted_wrt (\<lambda>a b. upvotes (engagement b) \<le> upvotes (engagement a)) ms
     \<and> mset ms = mset (fetchOrder getHot config w)
     \<and> (\<forall>v. filter (\<lambda>m. upvotes (engagement m) = v) ms
            = filter (\<lambda>m. upvotes (engagement m) = v) (fetchOrder getHot config w))"
proof -
  let ?xs = "fetchOrder getHot config w"
  let ?ms = "sortBy (\<lambda>a b. upvotes (engagement b) - upvotes (engagement a)) ?xs"
  have r: "fst (fetchMemes getHot config w) = Inr ?ms"
    by (simp add: fetchMemes_outcomes byUpvotes_def [abs_def])
  have s: "sorted_wrt (\<lambda>a b. upvotes (engagement b) \<le> upvotes (engagement a)) ?ms"
    by (rule sorted_sortBy [of "\<lambda>m. upvotes (engagement m)"])
  have m: "mset ?ms = mset ?xs"
    by (rule mset_sortBy)
  have f: "\<forall>v. filter (\<lambda>m. upvotes (engagement m) = v) ?ms
            = filter (\<lambda>m. upvotes (engagement m) = v) ?xs"
    using filter_sortBy [of "\<lambda>m. upvotes (engagement m)"] by blast
  from r s m f show ?thesis by blast
qed

text \<open>
  Claim C8, as stated: an empty list of sources is reported to the caller as a
  precondition violation. It is not: the constructor keeps an empty list, and
  \<^verbatim>\<open>fetchMemes\<close> resolves with the empty sequence, nothing logged, no fetch made.
\<close>

theorem fetchMemes_empty_sources_not_reported:
  "fetchMemes sampleHot (scraper_constructor (emptyPartial\<lparr>p_subreddits := Some []\<rparr>)) 0
     = (Inr [], [], 0)"
  by (simp add: fetchMemes_def scraper_constructor_def emptyPartial_def sortBy_def)

text \<open>
  Claim C8, amended. With an empty list of sources \<^verbatim>\<open>fetchMemes\<close> makes no fetch,
  logs nothing and resolves with the empty sequence. The constructor keeps a list
  that is given, also an empty one, and takes the default ''wallstreetbets'' only
  when no list is given.
\<close>

theorem fetchMemes_empty_sources:
  "(subreddits config = [] \<longrightarrow> fetchMemes getHot config w = (Inr [], [], w))
   \<and> (p_subreddits partial = Some [] \<longrightarrow> subreddits (scraper_constructor partial) = [])
   \<and> (p_subreddits partial = None \<longrightarrow>
        subreddits (scraper_constructor partial) = [''wallstreetbets''])"
  by (simp add: fetchMemes_def scraper_constructor_def sortBy_def)

theorem fetchMemes_empty_sources_witness:
  "fetchMemes sampleHot (sampleConfig\<lparr>subreddits := []\<rparr>) 0 = (Inr [], [], 0)
   \<and> subreddits (scraper_constructor (emptyPartial\<lparr>p_subreddits := Some []\<rparr>)) = []
   \<and> subreddits (scraper_constructor emptyPartial) = [''wallstreetbets'']"
proof -
  have a: "subreddits (sampleConfig\<lparr>subreddits := []\<rparr>) = []" by simp
  have b: "p_subreddits (emptyPartial\<lparr>p_subreddits := Some []\<rparr>) = Some []" by simp
  have c: "p_subreddits emptyPartial = None" by (simp add: emptyPartial_def)
  from a b c
    fetchMemes_empty_sources [of "sampleConfig\<lparr>subreddits := []\<rparr>" sampleHot 0
      "emptyPartial\<lparr>p_subreddits := Some []\<rparr>"]
    fetchMemes_empty_sources [of "sampleConfig\<lparr>subreddits := []\<rparr>" sampleHot 0 emptyPartial]
  show ?thesis by blast
qed

text \<open>
  Claim C7, as stated: a record with a missing field, such as the author, gets safe
  defaults and does not abort the rest of the batch. For a record without author
  object the conversion raises, and the two good records of the same batch are lost
  with it: the source contributes nothing.
\<close>

theorem malformed_record_aborts_batch:
  "convertToMemePost (galleryPost\<lparr>author := None\<rparr>) ''broken'' = Inl TypeError
   \<and> fetchMemes sampleHot (sampleConfig\<lparr>subreddits := [''broken'']\<rparr>) 0
       = (Inr [], [LogScraping ''broken'', LogError ''broken'' TypeError], 1)"
  by (simp add: fetchMemes_def fetchFromSubreddit_def sampleHot_def convertToMemePost_def
      shouldIncludePost_def isMemePost_def determinePostType_def galleryPost_def samplePost_def
      sampleConfig_def sortBy_def Let_def)

text \<open>
  Claim C7, amended. A record whose author object is present is converted whatever
  else is missing: a missing body text is the empty string, a missing award count
  is 0, the media URL is absent when the record has no URL, video, preview or
  gallery metadata, and the classifier always gives a category. A batch of such
  records is processed whole. Errors are isolated per source and not per record: a
  source that raises contributes nothing, the error is logged, and the loop goes on
  with the next source.
\<close>

theorem convertToMemePost_defaults:
  "(author post = Some a \<longrightarrow>
      (\<exists>m. convertToMemePost post s = Inr m
         \<and> tickers m
             = extractTickers (title post @ '' '' @ (case selftext post of None \<Rightarrow> [] | Some t \<Rightarrow> t))
         \<and> awards (engagement m) = (case total_awards_received post of None \<Rightarrow> 0 | Some n \<Rightarrow> n)
         \<and> mediaUrl m = getMediaUrl post
         \<and> postType m = determinePostType post
         \<and> meme_author m = a))
   \<and> (url post = None \<and> media post = None \<and> preview post = None \<and> media_metadata post = None
        \<longrightarrow> getMediaUrl post = None)
   \<and> ((\<forall>p\<in>set posts. author p \<noteq> None) \<longrightarrow>
        (\<exists>ms. collectMemes config s posts [] = Inr ms
           \<and> list_all2 (\<lambda>p m. convertToMemePost p s = Inr m)
                (filter (shouldIncludePost config) posts) ms))
   \<and> (fst (fetchFromSubreddit getHot config sub w) = Inl e \<longrightarrow>
        fetchLoop getHot config (sub # subs) (acc, lg, w) =
          fetchLoop getHot config subs
            (acc, lg @ [LogScraping sub, LogError sub e],
             snd (fetchFromSubreddit getHot config sub w)))"
proof -
  have 1: "author post = Some a \<longrightarrow>
      (\<exists>m. convertToMemePost post s = Inr m
         \<and> tickers m
             = extractTickers (title post @ '' '' @ (case selftext post of None \<Rightarrow> [] | Some t \<Rightarrow> t))
         \<and> awards (engagement m) = (case total_awards_received post of None \<Rightarrow> 0 | Some n \<Rightarrow> n)
         \<and> mediaUrl m = getMediaUrl post
         \<and> postType m = determinePostType post
         \<and> meme_author m = a)"
    by (simp add: convertToMemePost_def Let_def)
  have 2: "url post = None \<and> media post = None \<and> preview post = None \<and> media_metadata post = None
        \<longrightarrow> getMediaUrl post = None"
    by (simp add: getMediaUrl_def truthy_def)
  have 3: "(\<forall>p\<in>set posts. author p \<noteq> None) \<longrightarrow>
        (\<exists>ms. collectMemes config s posts [] = Inr ms
           \<and> list_all2 (\<lambda>p m. convertToMemePost p s = Inr m)
                (filter (shouldIncludePost config) posts) ms)"
    using collectMemes_authors by blast
  have 4: "fst (fetchFromSubreddit getHot config sub w) = Inl e \<longrightarrow>
        fetchLoop getHot config (sub # subs) (acc, lg, w) =
          fetchLoop getHot config subs
            (acc, lg @ [LogScraping sub, LogError sub e],
             snd (fetchFromSubreddit getHot config sub w))"
    by (cases "fetchFromSubreddit getHot config sub w") auto
  from 1 2 3 4 show ?thesis by blast
qed

theorem convertToMemePost_defaults_witness:
  "(\<exists>m. convertToMemePost samplePost ''wallstreetbets'' = Inr m
      \<and> tickers m = extractTickers (''$SPY to the moon'' @ '' '' @ [])
      \<and> awards (engagement m) = 0
      \<and> mediaUrl m = None
      \<and> meme_author m = ''trader'')
   \<and> (\<exists>ms. collectMemes sampleConfig ''wallstreetbets'' threePosts [] = Inr ms
        \<and> list_all2 (\<lambda>p m. convertToMemePost p ''wallstreetbets'' = Inr m)
             (filter (shouldIncludePost sampleConfig) threePosts) ms)
   \<and> fetchLoop sampleHot sampleConfig [''stocks'', ''wallstreetbets''] ([], [], 0) =
       fetchLoop sampleHot sampleConfig [''wallstreetbets'']
         ([], [LogScraping ''stocks'', LogError ''stocks'' (FetchError ''rate limited'')], 1)"
proof -
  have a: "author samplePost = Some ''trader''" by (simp add: samplePost_def)
  have u: "url samplePost = None \<and> media samplePost = None \<and> preview samplePost = None
      \<and> media_metadata samplePost = None"
    by (simp add: samplePost_def)
  have p: "\<forall>p\<in>set threePosts. author p \<noteq> None"
    by (simp add: threePosts_def galleryPost_def samplePost_def)
  have f: "fetchFromSubreddit sampleHot sampleConfig ''stocks'' 0
      = (Inl (FetchError ''rate limited''), 1)"
    by (simp add: fetchFromSubreddit_def sampleHot_def)
  then have f1: "fst (fetchFromSubreddit sampleHot sampleConfig ''stocks'' 0)
      = Inl (FetchError ''rate limited'')"
    by simp
  note t = convertToMemePost_defaults [of samplePost "''trader''" "''wallstreetbets''" threePosts
      sampleConfig sampleHot "''stocks''" 0 "FetchError ''rate limited''" "[''wallstreetbets'']"
      "[]" "[]"]
  from t a u have 1: "\<exists>m. convertToMemePost samplePost ''wallstreetbets'' = Inr m
      \<and> tickers m = extractTickers (''$SPY to the moon'' @ '' '' @ [])
      \<and> awards (engagement m) = 0
      \<and> mediaUrl m = None
      \<and> meme_author m = ''trader''"
    by (auto simp: samplePost_def)
  from t p have 2: "\<exists>ms. collectMemes sampleConfig ''wallstreetbets'' threePosts [] = Inr ms
        \<and> list_all2 (\<lambda>p m. convertToMemePost p ''wallstreetbets'' = Inr m)
             (filter (shouldIncludePost sampleConfig) threePosts) ms"
    by blast
  from t f1 f have 3: "fetchLoop sampleHot sampleConfig [''stocks'', ''wallstreetbets''] ([], [], 0) =
       fetchLoop sampleHot sampleConfig [''wallstreetbets'']
         ([], [LogScraping ''stocks'', LogError ''stocks'' (FetchError ''rate limited'')], 1)"
    by simp
  from 1 2 3 show ?thesis by blast
qed

section \<open>The token frequency table\<close>

lemma set_first_occurrences: "set (first_occurrences xs) = set xs"
  by (induction xs rule: first_occurrences.induct) auto

lemma distinct_first_occurrences: "distinct (first_occurrences xs)"
  by (induction xs rule: first_occurrences.induct) (auto simp: set_first_occurrences)

lemma first_occurrences_snoc:
  "first_occurrences (xs @ [x]) =
     (if x \<in> set xs then first_occurrences xs else first_occurrences xs @ [x])"
  by (induction xs rule: first_occurrences.induct) auto

lemma foldl_set_add: "foldl set_add [] xs = first_occurrences xs"
  by (induction xs rule: rev_induct)
     (auto simp: first_occurrences_snoc set_add_def set_first_occurrences)

lemma map_of_keyed:
  "map_of (map (\<lambda>t. (t, f t)) ks) x = (if x \<in> set ks then Some (f x) else None)"
  by (induction ks) auto

lemma map_set_keyed_in:
  "distinct ks \<Longrightarrow> x \<in> set ks \<Longrightarrow>
     map_set (map (\<lambda>t. (t, f t)) ks) x v = map (\<lambda>t. (t, if t = x then v else f t)) ks"
  by (induction ks) auto

lemma map_set_keyed_notin:
  "x \<notin> set ks \<Longrightarrow> map_set (map (\<lambda>t. (t, f t)) ks) x v = map (\<lambda>t. (t, f t)) ks @ [(x, v)]"
  by (induction ks) auto

lemma count_list_snoc:
  "count_list (ts @ [x]) t = (if t = x then Suc (count_list ts x) else count_list ts t)"
  by (induction ts) auto

lemma countTicker_freqTable: "countTicker (freqTable ts) x = freqTable (ts @ [x])"
proof (cases "x \<in> set ts")
  case True
  then have i: "x \<in> set (first_occurrences ts)" by (simp add: set_first_occurrences)
  have "countTicker (freqTable ts) x =
      map_set (map (\<lambda>t. (t, count_list ts t)) (first_occurrences ts)) x (Suc (count_list ts x))"
    using True by (simp add: countTicker_def freqTable_def map_of_keyed set_first_occurrences)
  also have "\<dots> = map (\<lambda>t. (t, if t = x then Suc (count_list ts x) else count_list ts t))
      (first_occurrences ts)"
    by (rule map_set_keyed_in [OF distinct_first_occurrences i])
  also have "\<dots> = freqTable (ts @ [x])"
    using True by (simp add: freqTable_def first_occurrences_snoc count_list_snoc)
  finally show ?thesis .
next
  case False
  then have n: "x \<notin> set (first_occurrences ts)" by (simp add: set_first_occurrences)
  have "countTicker (freqTable ts) x =
      map_set (map (\<lambda>t. (t, count_list ts t)) (first_occurrences ts)) x (Suc 0)"
    using False by (simp add: countTicker_def freqTable_def map_of_keyed set_first_occurrences)
  also have "\<dots> = map (\<lambda>t. (t, count_list ts t)) (first_occurrences ts) @ [(x, Suc 0)]"
    by (rule map_set_keyed_notin [OF n])
  also have "\<dots> = freqTable (ts @ [x])"
  proof -
    have "map (\<lambda>t. (t, count_list ts t)) (first_occurrences ts)
        = map (\<lambda>t. (t, count_list (ts @ [x]) t)) (first_occurrences ts)"
      using n by (intro map_cong) (auto simp: count_list_snoc)
    then show ?thesis
      using False by (simp add: freqTable_def first_occurrences_snoc count_list_snoc)
  qed
  finally show ?thesis .
qed

lemma foldl_countTicker: "foldl countTicker [] ts = freqTable ts"
proof (induction ts rule: rev_induct)
  case Nil
  then show ?case by (simp add: freqTable_def)
next
  case (snoc x xs)
  then show ?case by (simp add: countTicker_freqTable)
qed

lemma foldl_memes:
  "foldl (\<lambda>m meme. foldl countTicker m (tickers meme)) m0 posts =
     foldl countTicker m0 (concat (map tickers posts))"
  by (induction posts arbitrary: m0) auto

lemma map_set_fresh: "k \<notin> fst ` set m \<Longrightarrow> map_set m k v = m @ [(k, v)]"
  by (induction m) auto

lemma new_Map_distinct_aux:
  "distinct (map fst (acc @ xs)) \<Longrightarrow> foldl (\<lambda>m (k, v). map_set m k v) acc xs = acc @ xs"
proof (induction xs arbitrary: acc)
  case Nil
  then show ?case by simp
next
  case (Cons e xs)
  obtain k v where e: "e = (k, v)" by (cases e)
  from Cons.prems e have "k \<notin> fst ` set acc" by auto
  then have "map_set acc k v = acc @ [(k, v)]" by (rule map_set_fresh)
  moreover from Cons.prems e have "distinct (map fst ((acc @ [(k, v)]) @ xs))" by simp
  ultimately show ?case using Cons.IH [of "acc @ [(k, v)]"] e by simp
qed

lemma new_Map_distinct: "distinct (map fst xs) \<Longrightarrow> new_Map xs = xs"
  using new_Map_distinct_aux [of "[]" xs] by (simp add: new_Map_def)

lemma keys_freqTable: "map fst (freqTable ts) = first_occurrences ts"
  by (simp add: freqTable_def comp_def)

lemma distinct_keys_sorted:
  "distinct (map fst (sortBy cmp (freqTable ts)))"
proof -
  have "mset (map fst (sortBy cmp (freqTable ts))) = mset (map fst (freqTable ts))"
    by (simp add: mset_sortBy)
  then have "distinct (map fst (sortBy cmp (freqTable ts))) = distinct (map fst (freqTable ts))"
    by (rule mset_eq_imp_distinct_iff)
  then show ?thesis by (simp add: keys_freqTable distinct_first_occurrences)
qed

lemma trendingTickers_eq:
  "trendingTickers posts = sortBy byCount (freqTable (concat (map tickers posts)))"
  unfolding trendingTickers_def Let_def foldl_memes foldl_countTicker byCount_def [abs_def, symmetric]
  by (rule new_Map_distinct) (rule distinct_keys_sorted)

lemma filter_sortBy_byCount:
  "filter (\<lambda>e. snd e = n) (sortBy byCount xs) = filter (\<lambda>e. snd e = n) xs"
proof -
  have "filter (\<lambda>e. int (snd e) = int n) (sortBy (\<lambda>a b. int (snd b) - int (snd a)) xs)
      = filter (\<lambda>e. int (snd e) = int n) xs"
    by (rule filter_sortBy [of "\<lambda>e. int (snd e)"])
  then show ?thesis by (simp add: byCount_def [abs_def])
qed

lemma sorted_sortBy_byCount: "sorted_wrt (\<lambda>a b. snd b \<le> snd a) (sortBy byCount xs)"
proof -
  have "sorted_wrt (\<lambda>a b. int (snd b) \<le> int (snd a))
      (sortBy (\<lambda>a b. int (snd b) - int (snd a)) xs)"
    by (rule sorted_sortBy [of "\<lambda>e. int (snd e)"])
  then show ?thesis by (simp add: byCount_def [abs_def])
qed

lemma count_list_distinct: "distinct xs \<Longrightarrow> count_list xs t = (if t \<in> set xs then 1 else 0)"
  by (induction xs) auto

lemma count_flat_posts:
  "\<forall>p\<in>set posts. distinct (tickers p) \<Longrightarrow>
     count_list (concat (map tickers posts)) t = length (filter (\<lambda>p. t \<in> set (tickers p)) posts)"
  by (induction posts) (simp_all add: count_list_distinct)

lemma in_freqTable: "(t, n) \<in> set (freqTable ts) \<longleftrightarrow> t \<in> set ts \<and> n = count_list ts t"
  by (auto simp: freqTable_def set_first_occurrences)

lemma in_trendingTickers:
  "(t, n) \<in> set (trendingTickers posts) \<longleftrightarrow>
     t \<in> set (concat (map tickers posts)) \<and> n = count_list (concat (map tickers posts)) t"
  by (simp add: trendingTickers_eq set_sortBy in_freqTable)

lemma distinct_foldl_set_add: "distinct acc \<Longrightarrow> distinct (foldl set_add acc xs)"
  by (induction xs arbitrary: acc) (auto simp: set_add_def)

lemma distinct_extractTickers: "distinct (extractTickers text)"
  by (simp add: extractTickers_def distinct_foldl_set_add)

lemma convertToMemePost_distinct: "convertToMemePost post s = Inr m \<Longrightarrow> distinct (tickers m)"
  by (auto simp: convertToMemePost_def Let_def distinct_extractTickers split: option.splits)

lemma posts_frequency:
  assumes "\<forall>p\<in>set posts. distinct (tickers p)"
  shows "(t, n) \<in> set (trendingTickers posts) \<longleftrightarrow>
     n = length (filter (\<lambda>p. t \<in> set (tickers p)) posts) \<and> 0 < n"
proof -
  have c: "count_list (concat (map tickers posts)) t
      = length (filter (\<lambda>p. t \<in> set (tickers p)) posts)"
    using assms by (rule count_flat_posts)
  have "t \<in> set (concat (map tickers posts)) \<longleftrightarrow> 0 < length (filter (\<lambda>p. t \<in> set (tickers p)) posts)"
    by (auto simp: length_greater_0_conv [symmetric] filter_empty_conv simp del: length_greater_0_conv)
  then show ?thesis unfolding in_trendingTickers c by blast
qed

lemma list_all2_right:
  "list_all2 P xs ys \<Longrightarrow> y \<in> set ys \<Longrightarrow> \<exists>x. P x y"
proof (induction xs ys rule: list_all2_induct)
  case Nil
  then show ?case by simp
next
  case (Cons x xs y' ys)
  then show ?case by (cases "y = y'") auto
qed

lemma collectMemes_distinct:
  assumes "collectMemes config s posts [] = Inr ms"
  shows "\<forall>m\<in>set ms. distinct (tickers m)"
proof
  fix m assume m: "m \<in> set ms"
  have "\<exists>ms'. ms = [] @ ms' \<and> list_all2 (\<lambda>p m. convertToMemePost p s = Inr m)
      (filter (shouldIncludePost config) posts) ms'"
    using assms by (simp only: collectMemes_Inr_iff)
  then have "list_all2 (\<lambda>p m. convertToMemePost p s = Inr m)
      (filter (shouldIncludePost config) posts) ms"
    by simp
  then have "\<exists>p. convertToMemePost p s = Inr m"
    using m by (rule list_all2_right)
  then obtain p where "convertToMemePost p s = Inr m" ..
  then show "distinct (tickers m)" by (rule convertToMemePost_distinct)
qed

lemma memesOf_distinct:
  assumes "m \<in> set (memesOf (sub, fst (fetchFromSubreddit getHot config sub w)))"
  shows "distinct (tickers m)"
proof (cases "fst (fetchFromSubreddit getHot config sub w)")
  case (Inl e)
  with assms show ?thesis by simp
next
  case (Inr ms)
  with assms have m: "m \<in> set ms" by simp
  obtain r w' where g: "getHot w sub (limit config) = (r, w')"
    by (cases "getHot w sub (limit config)")
  show ?thesis
  proof (cases r)
    case (Inl e)
    with g Inr show ?thesis by (simp add: fetchFromSubreddit_def)
  next
    case (Inr posts)
    with g \<open>fst (fetchFromSubreddit getHot config sub w) = Inr ms\<close>
    have "collectMemes config sub posts [] = Inr ms" by (simp add: fetchFromSubreddit_def)
    then show ?thesis using m collectMemes_distinct by blast
  qed
qed

lemma outcomes_distinct:
  "m \<in> set (concat (map memesOf (outcomes getHot config subs w))) \<Longrightarrow> distinct (tickers m)"
proof (induction subs arbitrary: w)
  case Nil
  then show ?case by simp
next
  case (Cons sub subs)
  then show ?case using memesOf_distinct by fastforce
qed

lemma extract_twice: "extractTickers ''$SPY and again $SPY'' = [''SPY'']"
  by code_simp

text \<open>
  Claim C5. The frequency table is the table of the flattened token lists (every
  token with the number of its occurrences, in the order of first occurrence) sorted
  by count, descending: it is sorted, it has the same entries, and the entries of
  any one count are in first-occurrence order. Posts with the token lists
  [SPY, TSLA] and [SPY] give SPY with 2, then TSLA with 1.
\<close>

theorem trendingTickers_sorted_counts:
  "trendingTickers posts = sortBy byCount (freqTable (concat (map tickers posts)))
   \<and> sorted_wrt (\<lambda>a b. snd b \<le> snd a) (trendingTickers posts)
   \<and> mset (trendingTickers posts) = mset (freqTable (concat (map tickers posts)))
   \<and> (\<forall>n. filter (\<lambda>e. snd e = n) (trendingTickers posts)
          = filter (\<lambda>e. snd e = n) (freqTable (concat (map tickers posts))))
   \<and> (map tickers posts = [[''SPY'', ''TSLA''], [''SPY'']]
        \<longrightarrow> trendingTickers posts = [(''SPY'', 2), (''TSLA'', 1)])"
proof -
  let ?flat = "concat (map tickers posts)"
  have e: "trendingTickers posts = sortBy byCount (freqTable ?flat)"
    by (rule trendingTickers_eq)
  have s: "sorted_wrt (\<lambda>a b. snd b \<le> snd a) (trendingTickers posts)"
    unfolding e by (rule sorted_sortBy_byCount)
  have m: "mset (trendingTickers posts) = mset (freqTable ?flat)"
    unfolding e by (rule mset_sortBy)
  have f: "\<forall>n. filter (\<lambda>e. snd e = n) (trendingTickers posts)
          = filter (\<lambda>e. snd e = n) (freqTable ?flat)"
    unfolding e using filter_sortBy_byCount by blast
  have x: "trendingTickers posts = [(''SPY'', 2), (''TSLA'', 1)]"
    if "map tickers posts = [[''SPY'', ''TSLA''], [''SPY'']]"
    unfolding e that by (simp add: freqTable_def sortBy_def byCount_def)
  from e s m f x show ?thesis by blast
qed

theorem trendingTickers_sorted_counts_witness:
  "trendingTickers [sampleMeme [''SPY'', ''TSLA''], sampleMeme [''SPY'']]
     = [(''SPY'', 2), (''TSLA'', 1)]"
proof -
  have "map tickers [sampleMeme [''SPY'', ''TSLA''], sampleMeme [''SPY'']]
      = [[''SPY'', ''TSLA''], [''SPY'']]"
    by (simp add: sampleMeme_def)
  with trendingTickers_sorted_counts [of "[sampleMeme [''SPY'', ''TSLA''], sampleMeme [''SPY'']]"]
  show ?thesis by blast
qed

text \<open>
  Claim C10. When no post lists a token twice, the frequency of a token is the number
  of posts whose token list contains it. The extractor never lists a token twice,
  so this holds for the table \<^verbatim>\<open>getTrendingTickers\<close> computes from the posts it
  fetched: a post that mentions a token several times counts once.
\<close>

theorem frequency_counts_posts:
  "((\<forall>p\<in>set posts. distinct (tickers p)) \<longrightarrow>
      ((t, n) \<in> set (trendingTickers posts) \<longleftrightarrow>
         n = length (filter (\<lambda>p. t \<in> set (tickers p)) posts) \<and> 0 < n))
   \<and> distinct (extractTickers text)
   \<and> (\<exists>memes. fst (fetchMemes getHot config w) = Inr memes
        \<and> fst (getTrendingTickers getHot config w) = Inr (trendingTickers memes)
        \<and> (\<forall>t n. (t, n) \<in> set (trendingTickers memes) \<longleftrightarrow>
              n = length (filter (\<lambda>m. t \<in> set (tickers m)) memes) \<and> 0 < n))"
proof -
  let ?memes = "sortBy byUpvotes (fetchOrder getHot config w)"
  have 1: "(\<forall>p\<in>set posts. distinct (tickers p)) \<longrightarrow>
      ((t, n) \<in> set (trendingTickers posts) \<longleftrightarrow>
         n = length (filter (\<lambda>p. t \<in> set (tickers p)) posts) \<and> 0 < n)"
    using posts_frequency by blast
  have f: "fst (fetchMemes getHot config w) = Inr ?memes"
    by (simp add: fetchMemes_outcomes)
  have g: "fst (getTrendingTickers getHot config w) = Inr (trendingTickers ?memes)"
    by (simp add: getTrendingTickers_def fetchMemes_outcomes)
  have "\<forall>m\<in>set ?memes. distinct (tickers m)"
  proof
    fix m assume "m \<in> set ?memes"
    then have "m \<in> set (concat (map memesOf (outcomes getHot config (subreddits config) w)))"
      by (simp only: set_sortBy fetchOrder_def)
    then show "distinct (tickers m)" by (rule outcomes_distinct)
  qed
  then have "\<forall>t n. (t, n) \<in> set (trendingTickers ?memes) \<longleftrightarrow>
              n = length (filter (\<lambda>m. t \<in> set (tickers m)) ?memes) \<and> 0 < n"
    using posts_frequency by blast
  with f g have 3: "\<exists>memes. fst (fetchMemes getHot config w) = Inr memes
        \<and> fst (getTrendingTickers getHot config w) = Inr (trendingTickers memes)
        \<and> (\<forall>t n. (t, n) \<in> set (trendingTickers memes) \<longleftrightarrow>
              n = length (filter (\<lambda>m. t \<in> set (tickers m)) memes) \<and> 0 < n)"
    by blast
  from 1 3 distinct_extractTickers show ?thesis by blast
qed

theorem frequency_counts_posts_witness:
  "(''SPY'', 2) \<in> set (trendingTickers [sampleMeme [''SPY'', ''TSLA''], sampleMeme [''SPY'']])
   \<and> (''SPY'', 3) \<notin> set (trendingTickers [sampleMeme [''SPY'', ''TSLA''], sampleMeme [''SPY'']])
   \<and> distinct (extractTickers ''$SPY and again $SPY'')
   \<and> extractTickers ''$SPY and again $SPY'' = [''SPY'']"
proof -
  let ?posts = "[sampleMeme [''SPY'', ''TSLA''], sampleMeme [''SPY'']]"
  have d: "\<forall>p\<in>set ?posts. distinct (tickers p)"
    by (simp add: sampleMeme_def)
  have n: "length (filter (\<lambda>p. ''SPY'' \<in> set (tickers p)) ?posts) = 2"
    by (simp add: sampleMeme_def)
  note t2 = frequency_counts_posts
      [of ?posts "''SPY''" 2 "''$SPY and again $SPY''" sampleHot sampleConfig 0]
  note t3 = frequency_counts_posts
      [of ?posts "''SPY''" 3 "''$SPY and again $SPY''" sampleHot sampleConfig 0]
  from t2 d have "(''SPY'', 2) \<in> set (trendingTickers ?posts) \<longleftrightarrow>
      2 = length (filter (\<lambda>p. ''SPY'' \<in> set (tickers p)) ?posts)
      \<and> 0 < (2::nat)"
    by blast
  with n have 1: "(''SPY'', 2) \<in> set (trendingTickers ?posts)" by simp
  from t3 d have "(''SPY'', 3) \<in> set (trendingTickers ?posts) \<longleftrightarrow>
      3 = length (filter (\<lambda>p. ''SPY'' \<in> set (tickers p)) ?posts)
      \<and> 0 < (3::nat)"
    by blast
  with n have 2: "(''SPY'', 3) \<notin> set (trendingTickers ?posts)" by simp
  from t2 have 3: "distinct (extractTickers ''$SPY and again $SPY'')" by blast
  from 1 2 3 extract_twice show ?thesis by blast
qed

section \<open>The token extractor\<close>

lemma upperRun_le: "upperRun s j \<le> 5"
  unfolding upperRun_def
  by (rule order_trans [OF length_takeWhile_le]) simp

lemma upperRun_bound: "j + upperRun s j \<le> length s \<or> upperRun s j = 0"
proof -
  have "upperRun s j \<le> length (take 5 (drop j s))"
    unfolding upperRun_def by (rule length_takeWhile_le)
  then show ?thesis by auto
qed

lemma upperRun_upper: "m < upperRun s j \<Longrightarrow> isUpper (s ! (j + m)) \<and> j + m < length s"
proof -
  assume m: "m < upperRun s j"
  let ?xs = "take 5 (drop j s)"
  from m have "takeWhile isUpper ?xs ! m = ?xs ! m"
    unfolding upperRun_def by (rule takeWhile_nth)
  moreover from m have "takeWhile isUpper ?xs ! m \<in> set (takeWhile isUpper ?xs)"
    unfolding upperRun_def by simp
  then have "isUpper (takeWhile isUpper ?xs ! m)" by (rule set_takeWhileD [THEN conjunct2])
  moreover have "upperRun s j \<le> length ?xs"
    unfolding upperRun_def by (rule length_takeWhile_le)
  with m have ml: "m < length ?xs" by simp
  then have "j \<le> length s" by (simp, arith)
  with ml have "?xs ! m = s ! (j + m)" by (simp add: nth_drop)
  ultimately show ?thesis using ml by auto
qed

lemma upperRun_stop:
  "upperRun s j < 5 \<Longrightarrow> j + upperRun s j < length s \<Longrightarrow> \<not> isUpper (s ! (j + upperRun s j))"
proof -
  assume a: "upperRun s j < 5" and b: "j + upperRun s j < length s"
  let ?xs = "take 5 (drop j s)"
  from a b have "length (takeWhile isUpper ?xs) < length ?xs"
    unfolding upperRun_def by simp
  then have "\<not> isUpper (?xs ! length (takeWhile isUpper ?xs))"
    by (rule nth_length_takeWhile)
  moreover from a b have "?xs ! upperRun s j = s ! (j + upperRun s j)" by (simp add: nth_drop)
  ultimately show ?thesis unfolding upperRun_def by simp
qed

lemma upperRun_unique:
  assumes "n \<le> 5" "j + n \<le> length s" "list_all isUpper (take n (drop j s))"
    and "n = 5 \<or> j + n = length s \<or> \<not> isUpper (s ! (j + n))"
  shows "upperRun s j = n"
proof -
  let ?xs = "take 5 (drop j s)"
  have "takeWhile isUpper ?xs = take n ?xs"
  proof (rule takeWhile_eq_take_P_nth)
    fix i assume "i < n" "i < length ?xs"
    with assms(1,2,3) show "isUpper (?xs ! i)"
      by (simp add: list_all_length nth_drop)
  next
    assume "n < length ?xs"
    with assms show "\<not> isUpper (?xs ! n)" by (auto simp: nth_drop)
  qed
  then show ?thesis using assms(1,2) by (simp add: upperRun_def)
qed

lemma isUpper_word: "isUpper c \<Longrightarrow> isWordChar c"
  by (simp add: isWordChar_def)

lemma filter_rev_upt_last:
  assumes "1 \<le> k" and "\<forall>n. 1 \<le> n \<and> n < k \<longrightarrow> \<not> P n"
  shows "filter P (rev [1..<Suc k]) = (if P k then [k] else [])"
proof -
  from assms(1) have "rev [1..<Suc k] = k # rev [1..<k]" by simp
  moreover from assms(2) have "filter P (rev [1..<k]) = []"
    by (auto simp: filter_empty_conv)
  ultimately show ?thesis by simp
qed

lemma upperRun_boundary:
  assumes "1 \<le> n" "n \<le> upperRun s j"
  shows "(wordBefore s (j + n) \<noteq> wordAt s (j + n)) \<longleftrightarrow> (n = upperRun s j \<and> \<not> wordAt s (j + n))"
proof -
  from assms obtain m where m: "n = Suc m" "m < upperRun s j" by (cases n) auto
  from upperRun_upper [OF m(2)] have u: "isUpper (s ! (j + m))" "j + m < length s" by auto
  then have wb: "wordBefore s (j + n)"
    using m(1) by (simp add: wordBefore_def isUpper_word)
  show ?thesis
  proof (cases "n = upperRun s j")
    case True
    with wb show ?thesis by simp
  next
    case False
    with assms have "n < upperRun s j" by simp
    from upperRun_upper [OF this] have "wordAt s (j + n)"
      by (simp add: wordAt_def isUpper_word)
    with wb False show ?thesis by simp
  qed
qed

lemma concat_map_if:
  "concat (map (\<lambda>n. if P n then [f n] else []) xs) = map f (filter P xs)"
  by (induction xs) auto

lemma ends_letters:
  "rx_ends (Seq (Rep 1 5 isUpper) WordB) s j =
     (if 1 \<le> upperRun s j \<and> \<not> wordAt s (j + upperRun s j) then [j + upperRun s j] else [])"
proof -
  let ?k = "upperRun s j"
  let ?P = "\<lambda>n. wordBefore s (j + n) \<noteq> wordAt s (j + n)"
  have "rx_ends (Seq (Rep 1 5 isUpper) WordB) s j =
      concat (map (\<lambda>n. if ?P n then [j + n] else []) (rev [1..<Suc ?k]))"
    by (simp add: upperRun_def comp_def Let_def del: upt_Suc)
  also have "\<dots> = map (\<lambda>n. j + n) (filter ?P (rev [1..<Suc ?k]))"
    by (rule concat_map_if)
  finally have e: "rx_ends (Seq (Rep 1 5 isUpper) WordB) s j
      = map (\<lambda>n. j + n) (filter ?P (rev [1..<Suc ?k]))" .
  show ?thesis
  proof (cases "1 \<le> ?k")
    case False
    then show ?thesis unfolding e by simp
  next
    case True
    have "\<forall>n. 1 \<le> n \<and> n < ?k \<longrightarrow> \<not> ?P n"
      using upperRun_boundary [of _ s j] by auto
    from filter_rev_upt_last [OF True this]
    have "filter ?P (rev [1..<Suc ?k]) = (if ?P ?k then [?k] else [])" .
    moreover have "?P ?k \<longleftrightarrow> \<not> wordAt s (j + ?k)"
      using upperRun_boundary [OF True order_refl] by simp
    ultimately show ?thesis unfolding e using True by simp
  qed
qed

lemma take1_drop: "take (Suc 0) (drop i s) = [c] \<longleftrightarrow> i < length s \<and> s ! i = c"
proof (cases "i < length s")
  case True
  then have "drop i s = s ! i # drop (Suc i) s" by (simp add: Cons_nth_drop_Suc)
  with True show ?thesis by simp
next
  case False
  then show ?thesis by simp
qed

lemma ends_ticker:
  "rx_ends tickerRegex s i = (if tickerStart s i then [Suc i + upperRun s (Suc i)] else [])"
proof -
  have "rx_ends tickerRegex s i =
      (if take (Suc 0) (drop i s) = ''$'' then rx_ends (Seq (Rep 1 5 isUpper) WordB) s (Suc i)
       else [])"
    unfolding tickerRegex_def by (simp del: rx_ends.simps(2,6))
  then show ?thesis
    unfolding ends_letters take1_drop tickerStart_def by simp
qed

lemma token_at_iff: "token_at s i n \<longleftrightarrow> tickerStart s i \<and> n = upperRun s (Suc i)"
proof
  assume t: "token_at s i n"
  then have n: "1 \<le> n" "n \<le> 5" "Suc i + n \<le> length s" "i < length s" "s ! i = CHR ''$''"
    and up: "list_all isUpper (take n (drop (Suc i) s))"
    and b: "Suc i + n = length s \<or> \<not> isWordChar (s ! (Suc i + n))"
    by (auto simp: token_at_def)
  from b have "n = 5 \<or> Suc i + n = length s \<or> \<not> isUpper (s ! (Suc i + n))"
    using isUpper_word by blast
  with n up have r: "upperRun s (Suc i) = n" by (intro upperRun_unique) auto
  from b have "\<not> wordAt s (Suc i + n)" by (auto simp: wordAt_def)
  with n r show "tickerStart s i \<and> n = upperRun s (Suc i)"
    by (simp add: tickerStart_def)
next
  assume a: "tickerStart s i \<and> n = upperRun s (Suc i)"
  then have n: "1 \<le> n" "n = upperRun s (Suc i)" "i < length s" "s ! i = CHR ''$''"
    and w: "\<not> wordAt s (Suc i + n)"
    by (auto simp: tickerStart_def)
  have n5: "n \<le> 5" unfolding n(2) by (rule upperRun_le)
  from upperRun_bound [of "Suc i" s] n(1,2) have l: "Suc i + n \<le> length s" by auto
  have "\<forall>m < n. isUpper (s ! (Suc i + m))"
    using upperRun_upper [of _ s "Suc i"] n(2) by blast
  with l have up: "list_all isUpper (take n (drop (Suc i) s))"
    by (simp add: list_all_length nth_drop)
  from w l have "Suc i + n = length s \<or> \<not> isWordChar (s ! (Suc i + n))"
    by (auto simp: wordAt_def)
  with n n5 l up show "token_at s i n" by (simp add: token_at_def)
qed

lemma rx_exec_SomeD:
  assumes "rx_exec r s i = Some (k, e)"
  shows "i \<le> k \<and> k \<le> length s \<and> rx_ends r s k \<noteq> [] \<and> e = hd (rx_ends r s k)
     \<and> (\<forall>j. i \<le> j \<and> j < k \<longrightarrow> rx_ends r s j = [])"
proof -
  let ?P = "\<lambda>k. rx_ends r s k \<noteq> []"
  let ?xs = "[i..<Suc (length s)]"
  from assms have f: "find ?P ?xs = Some k" and e: "e = hd (rx_ends r s k)"
    by (auto simp: rx_exec_def simp del: upt_Suc split: option.splits)
  from f obtain d where d: "d < length ?xs" "?P (?xs ! d)" "k = ?xs ! d"
      "\<forall>j<d. \<not> ?P (?xs ! j)"
    unfolding find_Some_iff by blast
  from d(1) have dl: "i + d < Suc (length s)" by (simp del: upt_Suc)
  then have nth: "\<And>j. j \<le> d \<Longrightarrow> ?xs ! j = i + j"
    by (simp del: upt_Suc)
  from d(3) nth [of d] have k: "k = i + d" by simp
  have "\<forall>j. i \<le> j \<and> j < k \<longrightarrow> rx_ends r s j = []"
  proof (intro allI impI)
    fix j assume "i \<le> j \<and> j < k"
    then have "j - i < d" "j = i + (j - i)" using k by auto
    with d(4) nth [of "j - i"] show "rx_ends r s j = []" by (metis less_imp_le_nat)
  qed
  with d(2) k dl e nth [of d] show ?thesis by simp
qed

lemma filter_upt_first:
  assumes "i \<le> k" "k < n" "P k" "\<forall>j. i \<le> j \<and> j < k \<longrightarrow> \<not> P j"
  shows "filter P [i..<n] = k # filter P [Suc k..<n]"
proof -
  from assms(1,2) have "[i..<n] = [i..<k] @ k # [Suc k..<n]"
    by (metis le_add_diff_inverse less_imp_le_nat upt_add_eq_append upt_conv_Cons)
  moreover from assms(4) have "filter P [i..<k] = []" by (auto simp: filter_empty_conv)
  ultimately show ?thesis using assms(3) by simp
qed

lemma filter_upt_skip:
  assumes "k \<le> e" "\<forall>j. k \<le> j \<and> j < e \<longrightarrow> \<not> P j"
  shows "filter P [k..<n] = filter P [e..<n]"
proof (cases "e \<le> n")
  case True
  with assms(1) have "[k..<n] = [k..<e] @ [e..<n]"
    by (metis le_add_diff_inverse upt_add_eq_append)
  moreover from assms(2) have "filter P [k..<e] = []" by (auto simp: filter_empty_conv)
  ultimately show ?thesis by simp
next
  case False
  with assms(2) have "filter P [k..<n] = []" by (auto simp: filter_empty_conv)
  with False show ?thesis by simp
qed

lemma isUpper_not_dollar: "isUpper c \<Longrightarrow> c \<noteq> CHR ''$''"
  by (auto simp: isUpper_def)

lemma tickerStart_skip:
  assumes "Suc k \<le> j" "j < Suc k + upperRun s (Suc k)"
  shows "\<not> tickerStart s j"
proof -
  from assms have "j - Suc k < upperRun s (Suc k)" "j = Suc k + (j - Suc k)" by auto
  with upperRun_upper [of "j - Suc k" s "Suc k"] have "isUpper (s ! j)" by simp
  then show ?thesis using isUpper_not_dollar by (auto simp: tickerStart_def)
qed

lemma ends_ticker_nonempty: "rx_ends tickerRegex s k \<noteq> [] \<longleftrightarrow> tickerStart s k"
  by (simp add: ends_ticker)

lemma matchAll_ticker_aux:
  "r = tickerRegex \<Longrightarrow>
     rx_matchAll r s i =
       map (\<lambda>k. (k, Suc k + upperRun s (Suc k))) (filter (tickerStart s) [i..<Suc (length s)])"
proof (induction r s i rule: rx_matchAll.induct)
  case (1 r s i)
  note r = \<open>r = tickerRegex\<close>
  show ?case
  proof (cases "rx_exec r s i")
    case None
    then have "\<forall>k. i \<le> k \<and> k \<le> length s \<longrightarrow> \<not> tickerStart s k"
      unfolding rx_exec_None r ends_ticker_nonempty [symmetric] by blast
    then have "filter (tickerStart s) [i..<Suc (length s)] = []"
      by (auto simp: filter_empty_conv simp del: upt_Suc)
    with None show ?thesis by (subst rx_matchAll.simps) (simp del: upt_Suc)
  next
    case (Some m)
    obtain k e where m: "m = (k, e)" by (cases m)
    from rx_exec_SomeD [OF Some [unfolded m]]
    have k: "i \<le> k" "k \<le> length s" "tickerStart s k" "e = hd (rx_ends r s k)"
      and first: "\<forall>j. i \<le> j \<and> j < k \<longrightarrow> \<not> tickerStart s j"
      unfolding r ends_ticker_nonempty [symmetric] by auto
    from k(3,4) have e: "e = Suc k + upperRun s (Suc k)"
      unfolding r by (simp add: ends_ticker)
    then have ke: "k < e" by simp
    from "1.IH" [OF Some m [symmetric] r] ke
    have ih: "rx_matchAll r s e =
       map (\<lambda>k. (k, Suc k + upperRun s (Suc k))) (filter (tickerStart s) [e..<Suc (length s)])"
      by simp
    have "filter (tickerStart s) [i..<Suc (length s)]
        = k # filter (tickerStart s) [Suc k..<Suc (length s)]"
      using k(1,2,3) first by (intro filter_upt_first) auto
    also have "filter (tickerStart s) [Suc k..<Suc (length s)]
        = filter (tickerStart s) [e..<Suc (length s)]"
      using ke tickerStart_skip [of k _ s] unfolding e by (intro filter_upt_skip) auto
    finally have f: "filter (tickerStart s) [i..<Suc (length s)]
        = k # filter (tickerStart s) [e..<Suc (length s)]" .
    have "rx_matchAll r s i = (k, e) # rx_matchAll r s e"
      using Some m ke by (subst rx_matchAll.simps) simp
    then show ?thesis unfolding f ih using e by simp
  qed
qed

lemma matchAll_ticker:
  "rx_matchAll tickerRegex s 0 =
     map (\<lambda>k. (k, Suc k + upperRun s (Suc k))) (filter (tickerStart s) [0..<length s])"
proof -
  have "\<not> tickerStart s (length s)" by (simp add: tickerStart_def)
  then have "filter (tickerStart s) [0..<Suc (length s)] = filter (tickerStart s) [0..<length s]"
    by simp
  then show ?thesis using matchAll_ticker_aux [of tickerRegex s 0] by simp
qed

lemma concat_map_single:
  "concat (map (\<lambda>n. if n = m then [f n] else []) [a..<b]) = (if a \<le> m \<and> m < b then [f m] else [])"
  by (induction b) auto

lemma tokens_at_position:
  "concat (map (\<lambda>n. if token_at s i n then [take n (drop (Suc i) s)] else []) [1..<6]) =
     (if tickerStart s i then [take (upperRun s (Suc i)) (drop (Suc i) s)] else [])"
proof (cases "tickerStart s i")
  case False
  then have "\<forall>n. \<not> token_at s i n" by (simp add: token_at_iff)
  with False show ?thesis by simp
next
  case True
  then have b: "1 \<le> upperRun s (Suc i)" by (simp add: tickerStart_def)
  have "(\<lambda>n. if token_at s i n then [take n (drop (Suc i) s)] else [])
      = (\<lambda>n. if n = upperRun s (Suc i) then [take n (drop (Suc i) s)] else [])"
    using True by (auto simp: token_at_iff)
  then show ?thesis
    using True b upperRun_le [of s "Suc i"]
      concat_map_single [of "upperRun s (Suc i)" "\<lambda>n. take n (drop (Suc i) s)" 1 6]
    by simp
qed

lemma tokens_in_order_eq:
  "tokens_in_order s =
     map (\<lambda>i. take (upperRun s (Suc i)) (drop (Suc i) s)) (filter (tickerStart s) [0..<length s])"
  unfolding tokens_in_order_def tokens_at_position by (rule concat_map_if)

lemma matches_are_tokens:
  "map (group1 s) (rx_matchAll tickerRegex s 0) = tokens_in_order s"
  unfolding matchAll_ticker tokens_in_order_eq by (simp add: group1_def comp_def)

lemma extractTickers_eq: "extractTickers s = first_occurrences (tokens_in_order s)"
  unfolding extractTickers_def matches_are_tokens foldl_set_add ..

lemma token_shape:
  assumes "t \<in> set (tokens_in_order s)"
  shows "1 \<le> length t \<and> length t \<le> 5 \<and> list_all isUpper t"
proof -
  from assms obtain i n where "token_at s i n" "t = take n (drop (Suc i) s)"
    by (auto simp: tokens_in_order_def split: if_splits)
  then show ?thesis by (auto simp: token_at_def)
qed

lemma sample_tokens:
  "tokens_in_order ''$SPY up, $TSLA down, $SPY again'' = [''SPY'', ''TSLA'', ''SPY'']"
  by code_simp

lemma sample_no_token: "\<not> token_at ''$tsla'' i n"
proof
  assume t: "token_at ''$tsla'' i n"
  then have "i < 5" by (simp add: token_at_def)
  then consider "i = 0" | "i = 1" | "i = 2" | "i = 3" | "i = 4" by linarith
  then show False
  proof cases
    case 1
    with t obtain m where "n = Suc m" by (cases n) (auto simp: token_at_def)
    with t 1 show False by (simp add: token_at_def isUpper_def)
  qed (use t in \<open>simp_all add: token_at_def\<close>)
qed

text \<open>
  Claim C2. The extractor returns the tokens of the text (a dollar sign, one to five
  uppercase Latin letters, a word boundary behind them), without the dollar sign, each
  once, in the order of their first appearance. The result has no duplicates, every
  element is one to five uppercase letters, it holds exactly the tokens of the text,
  and it is empty for the empty text and for a text without token.
\<close>

theorem extractTickers_tokens:
  "extractTickers text = first_occurrences (tokens_in_order text)
   \<and> distinct (extractTickers text)
   \<and> (\<forall>t\<in>set (extractTickers text). 1 \<le> length t \<and> length t \<le> 5 \<and> list_all isUpper t)
   \<and> (\<forall>t. t \<in> set (extractTickers text) \<longleftrightarrow>
         (\<exists>i n. token_at text i n \<and> t = take n (drop (Suc i) text)))
   \<and> extractTickers [] = []
   \<and> ((\<forall>i n. \<not> token_at text i n) \<longrightarrow> extractTickers text = [])"
proof -
  have 1: "extractTickers text = first_occurrences (tokens_in_order text)"
    by (rule extractTickers_eq)
  have 2: "distinct (extractTickers text)"
    unfolding 1 by (rule distinct_first_occurrences)
  have 3: "\<forall>t\<in>set (extractTickers text). 1 \<le> length t \<and> length t \<le> 5 \<and> list_all isUpper t"
    unfolding 1 set_first_occurrences using token_shape by blast
  have 4: "\<forall>t. t \<in> set (extractTickers text) \<longleftrightarrow>
         (\<exists>i n. token_at text i n \<and> t = take n (drop (Suc i) text))"
  proof (intro allI iffI)
    fix t assume "t \<in> set (extractTickers text)"
    then show "\<exists>i n. token_at text i n \<and> t = take n (drop (Suc i) text)"
      unfolding 1 set_first_occurrences by (auto simp: tokens_in_order_def split: if_splits)
  next
    fix t assume "\<exists>i n. token_at text i n \<and> t = take n (drop (Suc i) text)"
    then obtain i n where a: "token_at text i n" "t = take n (drop (Suc i) text)" by blast
    then have "i < length text" "1 \<le> n" "n < 6" by (auto simp: token_at_def)
    with a show "t \<in> set (extractTickers text)"
      unfolding 1 set_first_occurrences tokens_in_order_def by force
  qed
  have 5: "extractTickers [] = []"
    unfolding extractTickers_eq by (simp add: tokens_in_order_def)
  have 6: "(\<forall>i n. \<not> token_at text i n) \<longrightarrow> extractTickers text = []"
  proof
    assume "\<forall>i n. \<not> token_at text i n"
    with 4 have "\<forall>t. t \<notin> set (extractTickers text)" by simp
    then show "extractTickers text = []" by (cases "extractTickers text") auto
  qed
  from 1 2 3 4 5 6 show ?thesis by (intro conjI)
qed

theorem extractTickers_tokens_witness:
  "extractTickers ''$SPY up, $TSLA down, $SPY again'' = [''SPY'', ''TSLA'']
   \<and> (1 \<le> length ''SPY'' \<and> length ''SPY'' \<le> 5 \<and> list_all isUpper ''SPY'')
   \<and> (\<exists>i n. token_at ''$SPY up, $TSLA down, $SPY again'' i n)
   \<and> extractTickers ''$tsla'' = []"
proof -
  note a = extractTickers_tokens [of "''$SPY up, $TSLA down, $SPY again''"]
  note b = extractTickers_tokens [of "''$tsla''"]
  from a have 1: "extractTickers ''$SPY up, $TSLA down, $SPY again'' = [''SPY'', ''TSLA'']"
    by (simp add: sample_tokens)
  then have m: "''SPY'' \<in> set (extractTickers ''$SPY up, $TSLA down, $SPY again'')" by simp
  with a have 2: "1 \<le> length ''SPY'' \<and> length ''SPY'' \<le> 5 \<and> list_all isUpper ''SPY''"
    by blast
  from a m have 3: "\<exists>i n. token_at ''$SPY up, $TSLA down, $SPY again'' i n" by blast
  from b sample_no_token have 4: "extractTickers ''$tsla'' = []" by blast
  from 1 2 3 4 show ?thesis by blast
qed

end
